theory Spec2Isabelle
  imports Main "HOL-Library.AList"
begin

section \<open>Strings\<close>

text \<open>
  A JavaScript string is a sequence of UTF-16 code units and every operation used
  below (\<open>replace\<close> with a regular expression that has no \<open>u\<close> flag,
  \<open>slice\<close>, \<open>startsWith\<close>, \<open>includes\<close>) works on code units.
  A string is modelled by \<^typ>\<open>string\<close>, one \<^typ>\<open>char\<close> per code unit, which
  covers the code units below 256 (ASCII and Latin-1).
\<close>

definition isLowerAZ :: "char \<Rightarrow> bool" where
  \<comment> \<open>the character class \<open>[a-z]\<close>\<close>
  "isLowerAZ c = (c \<in> set ''abcdefghijklmnopqrstuvwxyz'')"

definition isUpperAZ :: "char \<Rightarrow> bool" where
  \<comment> \<open>the character class \<open>[A-Z]\<close>\<close>
  "isUpperAZ c = (c \<in> set ''ABCDEFGHIJKLMNOPQRSTUVWXYZ'')"

definition isDigit09 :: "char \<Rightarrow> bool" where
  \<comment> \<open>the character class \<open>[0-9]\<close>\<close>
  "isDigit09 c = (c \<in> set ''0123456789'')"

definition isKeyChar :: "char \<Rightarrow> bool" where
  \<comment> \<open>the character class \<open>[a-zA-Z0-9_.-]\<close>\<close>
  "isKeyChar c = (isLowerAZ c \<or> isUpperAZ c \<or> isDigit09 c \<or> c \<in> set ''_.-'')"

definition matchesToolNamePattern :: "string \<Rightarrow> bool" where
  \<comment> \<open>the regular expression \<open>^[a-zA-Z0-9_.-]{1,64}$\<close>\<close>
  "matchesToolNamePattern s = (1 \<le> length s \<and> length s \<le> 64 \<and> list_all isKeyChar s)"

definition toLowerCaseUnit :: "char \<Rightarrow> char" where
  \<comment> \<open>\<open>toLowerCase\<close> on one code unit below 256: \<open>A-Z\<close> and the Latin-1 capitals
      U+00C0..U+00DE (without the multiplication sign U+00D7) move up by 32.\<close>
  "toLowerCaseUnit c =
     (let n = (of_char c :: nat)
      in if (65 \<le> n \<and> n \<le> 90) \<or> (192 \<le> n \<and> n \<le> 222 \<and> n \<noteq> 215)
         then char_of (n + 32) else c)"

definition toLowerCase :: "string \<Rightarrow> string" where
  "toLowerCase s = map toLowerCaseUnit s"

text \<open>\<open>toUpperCase\<close> on ASCII: the letters \<open>a-z\<close> move down by 32. It is applied to
  the method of an operation, one of the five lower-case names of \<open>HTTP_METHODS\<close>.\<close>

definition toUpperCaseUnit :: "char \<Rightarrow> char" where
  "toUpperCaseUnit c =
     (let n = (of_char c :: nat)
      in if 97 \<le> n \<and> n \<le> 122 then char_of (n - 32) else c)"

fun startsWith :: "string \<Rightarrow> string \<Rightarrow> bool" where
  \<comment> \<open>\<open>s.startsWith(p)\<close>\<close>
  "startsWith s [] = True"
| "startsWith [] (p # ps) = False"
| "startsWith (c # cs) (p # ps) = (c = p \<and> startsWith cs ps)"

fun includesStr :: "string \<Rightarrow> string \<Rightarrow> bool" where
  \<comment> \<open>\<open>s.includes(p)\<close>\<close>
  "includesStr [] p = startsWith [] p"
| "includesStr (c # cs) p = (startsWith (c # cs) p \<or> includesStr cs p)"

section \<open>Key sanitization (zodGenerator.ts)\<close>

text \<open>
  \<^verbatim>\<open>
  export function sanitizeKey(name: string): string {
    let safe = name.replace(/[^a-zA-Z0-9_.-]/g, "_");
    safe = safe.replace(/^[.-]+/, "");
    safe = safe.replace(/_+/g, "_");
    safe = safe.slice(0, 64);
    if (!safe) safe = "param";
    return safe;
  }
  \<close>
\<close>

definition replaceUnsafe :: "string \<Rightarrow> string" where
  \<comment> \<open>\<open>.replace(/[^a-zA-Z0-9_.-]/g, "_")\<close>\<close>
  "replaceUnsafe s = map (\<lambda>c. if isKeyChar c then c else CHR ''_'') s"

definition stripLeading :: "string \<Rightarrow> string" where
  \<comment> \<open>\<open>.replace(/^[.-]+/, "")\<close>: the greedy leading run of dots and hyphens is removed\<close>
  "stripLeading s = dropWhile (\<lambda>c. c = CHR ''.'' \<or> c = CHR ''-'') s"

function collapseUnderscores :: "string \<Rightarrow> string" where
  \<comment> \<open>\<open>.replace(/_+/g, "_")\<close>: at an underscore the greedy run is matched and replaced
      by one underscore; the scan goes on after the run\<close>
  "collapseUnderscores [] = []"
| "collapseUnderscores (c # cs) =
     (if c = CHR ''_''
      then CHR ''_'' # collapseUnderscores (dropWhile (\<lambda>d. d = CHR ''_'') cs)
      else c # collapseUnderscores cs)"
  by pat_completeness auto
termination
  by (relation "measure length") (auto simp: length_dropWhile_le less_Suc_eq_le)

definition sanitizeKey :: "string \<Rightarrow> string" where
  "sanitizeKey name =
     (let safe = replaceUnsafe name;
          safe = stripLeading safe;
          safe = collapseUnderscores safe;
          safe = take 64 safe
      in if safe = [] then ''param'' else safe)"

section \<open>Tool names (dynamicTools.ts)\<close>

text \<open>
  \<^verbatim>\<open>
  export function buildToolName(apiName: string, operationId: string): string {
    const snake = operationId
      .replace(/([a-z0-9])([A-Z])/g, "$1_$2")
      .replace(/([A-Z]+)([A-Z][a-z])/g, "$1_$2")
      .toLowerCase();
    return `${apiName}_${snake}`;
  }
  \<close>
\<close>

fun splitLowerUpper :: "string \<Rightarrow> string" where
  \<comment> \<open>\<open>.replace(/([a-z0-9])([A-Z])/g, "$1_$2")\<close>: a match takes two code units and the
      scan goes on after them\<close>
  "splitLowerUpper (a # b # cs) =
     (if (isLowerAZ a \<or> isDigit09 a) \<and> isUpperAZ b
      then a # CHR ''_'' # b # splitLowerUpper cs
      else a # splitLowerUpper (b # cs))"
| "splitLowerUpper cs = cs"

definition matchCapsRun :: "string \<Rightarrow> nat option" where
  \<comment> \<open>A match of \<open>([A-Z]+)([A-Z][a-z])\<close> at the head of the string: the greedy group takes
      the whole run of capitals and gives back one code unit at a time (at least one stays)
      until a capital and a lower-case letter follow. The result is the length of group 1.\<close>
  "matchCapsRun s =
     find (\<lambda>k. case drop k s of
                  b # c # _ \<Rightarrow> isUpperAZ b \<and> isLowerAZ c
                | _ \<Rightarrow> False)
          (rev [1 ..< Suc (length (takeWhile isUpperAZ s))])"

function splitCapsRun :: "string \<Rightarrow> string" where
  \<comment> \<open>\<open>.replace(/([A-Z]+)([A-Z][a-z])/g, "$1_$2")\<close>\<close>
  "splitCapsRun [] = []"
| "splitCapsRun (c # cs) =
     (case matchCapsRun (c # cs) of
        Some k \<Rightarrow> take k (c # cs) @ CHR ''_'' # take 2 (drop k (c # cs))
                  @ splitCapsRun (drop (k + 2) (c # cs))
      | None \<Rightarrow> c # splitCapsRun cs)"
  by pat_completeness auto
termination
  by (relation "measure length") auto

definition buildToolName :: "string \<Rightarrow> string \<Rightarrow> string" where
  "buildToolName apiName operationId =
     (let snake = toLowerCase (splitCapsRun (splitLowerUpper operationId))
      in apiName @ ''_'' @ snake)"

text \<open>
  The snake-casing in the words of the specification. The operation id is split, by an
  underscore, before a capital that follows a lower-case letter or a digit (a boundary
  from lower to upper; the example \<open>V4CalendarPostItem\<close> counts a digit with the
  lower-case letters), and before the last capital of consecutive capitals when a
  lower-case letter follows it (the run of capitals precedes a capital and a lower-case
  letter). The result is lower-cased.
\<close>

definition lowerToUpper :: "char \<Rightarrow> char \<Rightarrow> string \<Rightarrow> bool" where
  \<comment> \<open>the code unit \<open>c\<close>, after \<open>prev\<close> and before \<open>rest\<close>, starts a word\<close>
  "lowerToUpper prev c rest = ((isLowerAZ prev \<or> isDigit09 prev) \<and> isUpperAZ c)"

definition capsBeforeWord :: "char \<Rightarrow> char \<Rightarrow> string \<Rightarrow> bool" where
  "capsBeforeWord prev c rest =
     (isUpperAZ prev \<and> isUpperAZ c \<and> (case rest of [] \<Rightarrow> False | n # _ \<Rightarrow> isLowerAZ n))"

fun splitBefore :: "(char \<Rightarrow> char \<Rightarrow> string \<Rightarrow> bool) \<Rightarrow> char \<Rightarrow> string \<Rightarrow> string" where
  "splitBefore boundary prev [] = []"
| "splitBefore boundary prev (c # cs) =
     (if boundary prev c cs then CHR ''_'' # c # splitBefore boundary c cs
      else c # splitBefore boundary c cs)"

definition snakeCaseSpec :: "string \<Rightarrow> string" where
  "snakeCaseSpec s =
     toLowerCase
       (case s of
          [] \<Rightarrow> []
        | c # cs \<Rightarrow>
            c # splitBefore (\<lambda>prev c rest. lowerToUpper prev c rest \<or> capsBeforeWord prev c rest)
                  c cs)"

text \<open>Auxiliary predicates on keys: no two adjacent underscores, and no leading dot or
  hyphen.\<close>

fun noUnderscoreRun :: "string \<Rightarrow> bool" where
  "noUnderscoreRun (a # b # cs) = (\<not> (a = CHR ''_'' \<and> b = CHR ''_'') \<and> noUnderscoreRun (b # cs))"
| "noUnderscoreRun cs = True"

fun headOk :: "string \<Rightarrow> bool" where
  "headOk [] = True"
| "headOk (c # cs) = (c \<noteq> CHR ''.'' \<and> c \<noteq> CHR ''-'')"

section \<open>JSON values\<close>

text \<open>
  Values decoded by \<open>JSON.parse\<close>. An object keeps its properties in order; a number is
  an integer (the documents and parameters read here carry integers only). \<open>undefined\<close>
  is the absence of a value: \<^term>\<open>None\<close> where a \<^typ>\<open>'a option\<close> is read.
\<close>

datatype json =
    JNull
  | JBool bool
  | JNum int
  | JStr string
  | JArr "json list"
  | JObj "(string \<times> json) list"

definition getProp :: "json \<Rightarrow> string \<Rightarrow> json option" where
  \<comment> \<open>\<open>v?.[k]\<close> for a property name \<open>k\<close>: the own property of an object; a primitive,
      \<open>null\<close> and an array have none of the names read here\<close>
  "getProp v k = (case v of JObj kvs \<Rightarrow> map_of kvs k | _ \<Rightarrow> None)"

fun truthy :: "json \<Rightarrow> bool" where
  "truthy JNull = False"
| "truthy (JBool b) = b"
| "truthy (JNum n) = (n \<noteq> 0)"
| "truthy (JStr s) = (s \<noteq> [])"
| "truthy (JArr xs) = True"
| "truthy (JObj kvs) = True"

fun nullishOr :: "json option \<Rightarrow> json \<Rightarrow> json" where
  \<comment> \<open>\<open>v ?? d\<close>: the default replaces \<open>undefined\<close> and \<open>null\<close>\<close>
  "nullishOr None d = d"
| "nullishOr (Some JNull) d = d"
| "nullishOr (Some v) d = v"

fun showNat :: "nat \<Rightarrow> string" where
  "showNat n = (if n < 10 then [''0123456789'' ! n]
                else showNat (n div 10) @ [''0123456789'' ! (n mod 10)])"

declare showNat.simps [simp del]

definition showInt :: "int \<Rightarrow> string" where
  "showInt i = (if i < 0 then CHR ''-'' # showNat (nat (- i)) else showNat (nat i))"

fun joinComma :: "string list \<Rightarrow> string" where
  "joinComma [] = []"
| "joinComma [s] = s"
| "joinComma (s # t # ts) = s @ '','' @ joinComma (t # ts)"

fun toStringJS :: "json \<Rightarrow> string" where
  \<comment> \<open>\<open>String(v)\<close>; inside an array \<open>null\<close> is the empty string\<close>
  "toStringJS JNull = ''null''"
| "toStringJS (JBool b) = (if b then ''true'' else ''false'')"
| "toStringJS (JNum n) = showInt n"
| "toStringJS (JStr s) = s"
| "toStringJS (JArr xs) = joinComma (map (\<lambda>x. if x = JNull then [] else toStringJS x) xs)"
| "toStringJS (JObj kvs) = ''[object Object]''"

section \<open>ARM request pipeline (arm.ts)\<close>

text \<open>
  \<^verbatim>\<open>
  const MAX_RETRIES = 3;
  function isRetryable(status: number): boolean {
    return status === 429 || status >= 500;
  }
  \<close>
\<close>

definition MAX_RETRIES :: nat where
  "MAX_RETRIES = 3"

definition isRetryable :: "nat \<Rightarrow> bool" where
  "isRetryable status = (status = 429 \<or> status \<ge> 500)"

text \<open>
  What one call of \<open>fetch\<close> gives: it rejects (the request failed below HTTP, or the
  30 second timeout aborted it), or it resolves to a response. Of a response the loop reads
  the status, \<open>ok\<close> (a status from 200 to 299) and the body: \<open>text()\<close> and \<open>json()\<close> may
  reject while the body is read, the text may be empty, it may fail to parse as JSON, or it
  parses to a value.
\<close>

datatype body = BodyAborted | BodyEmpty | BodyMalformed | BodyJson json

record response =
  status :: nat
  retryAfter :: "string option"
  body :: body

datatype fetch_outcome = FetchRejected string | FetchResponse response

definition ok :: "response \<Rightarrow> bool" where
  "ok r = (200 \<le> status r \<and> status r \<le> 299)"

text \<open>
  What \<open>armRequest\<close> throws: an \<open>ArmError\<close> with code, message and status code, or the
  error caught in the last attempt: the rejection of \<open>fetch\<close>, the rejection of
  \<open>response.text()\<close>, or the \<open>SyntaxError\<close> of \<open>JSON.parse\<close>.
\<close>

datatype thrown =
    NetworkFailure string
  | BodyReadFailure
  | JsonSyntaxError
  | GenericError string

datatype arm_error =
    ArmError (code: json) (message: string) (statusCode: nat)
  | Thrown thrown

text \<open>
  \<^verbatim>\<open>
      let errorCode = "UnknownError";
      let errorMessage = `ARM request failed with status ${response.status}`;
      try {
        const errorBody = await response.json() as {...};
        if (errorBody?.error) {
          errorCode = errorBody.error.code ?? errorCode;
          errorMessage = errorBody.error.message ?? errorMessage;
        }
      } catch { }
      throw new ArmError(errorCode, errorMessage, response.status);
  \<close>
  The constructor passes the message to \<open>Error\<close>, which stores its string form.
\<close>

definition shapeArmError :: "response \<Rightarrow> arm_error" where
  "shapeArmError r =
     (let errorCode = JStr ''UnknownError'';
          errorMessage = JStr (''ARM request failed with status '' @ showNat (status r));
          err = (case body r of
                   BodyJson errorBody \<Rightarrow>
                     (case getProp errorBody ''error'' of
                        Some e \<Rightarrow> if truthy e then Some e else None
                      | None \<Rightarrow> None)
                 | _ \<Rightarrow> None)
      in case err of
           Some e \<Rightarrow>
             ArmError (nullishOr (getProp e ''code'') errorCode)
                      (toStringJS (nullishOr (getProp e ''message'') errorMessage))
                      (status r)
         | None \<Rightarrow> ArmError errorCode (toStringJS errorMessage) (status r))"

text \<open>
  One pass through the body of the \<open>for\<close> loop: it returns the decoded value, throws an
  \<open>ArmError\<close> out of the function, or goes on to the next value of \<open>attempt\<close> with
  \<open>lastError\<close> as it stands afterwards. The \<open>catch\<close> block sets \<open>lastError\<close> and either
  continues or falls out of the block at the last attempt; both reach \<open>attempt++\<close>.
  The delay before a retry (\<open>getRetryDelay\<close>, \<open>sleep\<close>) does not enter the control flow.
\<close>

datatype attempt_result =
    Returned json
  | Raised arm_error
  | NextAttempt "thrown option"

definition attemptOnce :: "fetch_outcome \<Rightarrow> nat \<Rightarrow> thrown option \<Rightarrow> attempt_result" where
  "attemptOnce out attempt lastError =
     (case out of
        FetchRejected e \<Rightarrow> NextAttempt (Some (NetworkFailure e))
      | FetchResponse r \<Rightarrow>
          if ok r then
            (case body r of
               BodyAborted \<Rightarrow> NextAttempt (Some BodyReadFailure)
             | BodyEmpty \<Rightarrow> Returned (JObj [])
             | BodyMalformed \<Rightarrow> NextAttempt (Some JsonSyntaxError)
             | BodyJson v \<Rightarrow> Returned v)
          else if isRetryable (status r) \<and> attempt < MAX_RETRIES then NextAttempt lastError
          else Raised (shapeArmError r))"

text \<open>
  The loop. Each pass calls \<open>fetch\<close> once. The calls are recorded in \<open>fetches\<close>: the
  value of \<open>attempt\<close> at each call, in the order of the calls. The transport gives the
  outcome of the n-th call of \<open>fetch\<close>, counted from 0.
\<close>

record arm_run =
  fetches :: "nat list"
  outcome :: "arm_error + json"

function armLoop ::
  "(nat \<Rightarrow> fetch_outcome) \<Rightarrow> nat \<Rightarrow> thrown option \<Rightarrow> nat list \<Rightarrow> arm_run" where
  "armLoop transport attempt lastError calls =
     (if attempt \<le> MAX_RETRIES then
        (let response = transport (length calls);
             calls' = calls @ [attempt]
         in case attemptOnce response attempt lastError of
              Returned v \<Rightarrow> \<lparr>fetches = calls', outcome = Inr v\<rparr>
            | Raised e \<Rightarrow> \<lparr>fetches = calls', outcome = Inl e\<rparr>
            | NextAttempt lastError' \<Rightarrow> armLoop transport (attempt + 1) lastError' calls')
      else
        \<lparr>fetches = calls,
         outcome = Inl (Thrown (case lastError of
                                  Some e \<Rightarrow> e
                                | None \<Rightarrow> GenericError ''ARM request failed after retries''))\<rparr>)"
  by pat_completeness auto
termination
  by (relation "measure (\<lambda>(transport, attempt, lastError, calls). Suc MAX_RETRIES - attempt)") auto

declare armLoop.simps [simp del]

definition armRequest :: "(nat \<Rightarrow> fetch_outcome) \<Rightarrow> arm_run" where
  "armRequest transport = armLoop transport 0 None []"

definition threwBelowHttp :: "fetch_outcome \<Rightarrow> bool" where
  \<comment> \<open>the attempt failed below the HTTP level: \<open>fetch\<close> rejected, or the connection broke
      while the body of a 2xx response was read\<close>
  "threwBelowHttp out =
     (case out of FetchRejected e \<Rightarrow> True | FetchResponse r \<Rightarrow> ok r \<and> body r = BodyAborted)"

definition isThrown :: "arm_error + json \<Rightarrow> bool" where
  \<comment> \<open>the call raised an error that is not an \<open>ArmError\<close>\<close>
  "isThrown res = (case res of Inl (Thrown t) \<Rightarrow> True | _ \<Rightarrow> False)"

text \<open>Transports and responses used as concrete inputs below.\<close>

definition always503 :: "nat \<Rightarrow> fetch_outcome" where
  "always503 i = FetchResponse \<lparr>status = 503, retryAfter = None,
     body = BodyJson (JObj [(''error'', JObj [(''code'', JStr ''ServerBusy''),
                                             (''message'', JStr ''try later'')])])\<rparr>"

definition gatewayThenReset :: "nat \<Rightarrow> fetch_outcome" where
  "gatewayThenReset i =
     (if i < 3 then FetchResponse \<lparr>status = 502, retryAfter = None, body = BodyMalformed\<rparr>
      else FetchRejected ''ECONNRESET'')"

definition always200Html :: "nat \<Rightarrow> fetch_outcome" where
  "always200Html i = FetchResponse \<lparr>status = 200, retryAfter = None, body = BodyMalformed\<rparr>"

definition throttledThenOk :: "nat \<Rightarrow> fetch_outcome" where
  "throttledThenOk i =
     (if i = 0 then FetchResponse \<lparr>status = 429, retryAfter = Some ''1'', body = BodyEmpty\<rparr>
      else FetchResponse \<lparr>status = 200, retryAfter = None,
                          body = BodyJson (JObj [(''value'', JArr [])])\<rparr>)"

definition codeOnly500 :: "nat \<Rightarrow> fetch_outcome" where
  "codeOnly500 i = FetchResponse \<lparr>status = 500, retryAfter = None,
     body = BodyJson (JObj [(''error'', JObj [(''code'', JStr ''InternalServerError'')])])\<rparr>"

definition messageOnly500 :: "nat \<Rightarrow> fetch_outcome" where
  "messageOnly500 i = FetchResponse \<lparr>status = 500, retryAfter = None,
     body = BodyJson (JObj [(''error'', JObj [(''message'', JStr ''backend down'')])])\<rparr>"

definition noEnvelope500 :: "nat \<Rightarrow> fetch_outcome" where
  "noEnvelope500 i = FetchResponse \<lparr>status = 500, retryAfter = None,
     body = BodyJson (JObj [(''status'', JStr ''failed'')])\<rparr>"

section \<open>Parsed operations (openApiParser.ts)\<close>

text \<open>
  The interfaces of the parser. Field names of parameters and body properties carry the
  prefix \<open>param\<close> and \<open>prop\<close>, since a field name is one constant for all records;
  the field \<open>method\<close> of an operation is \<open>httpMethod\<close>.
  A field marked \<open>?\<close> in the source is an option. The \<open>dynamicValues\<close> hint of a
  parameter is copied by the parser and read nowhere; it is left out. The visibility of
  an operation and the members of its annotation are typed \<open>string\<close> and \<open>number\<close>;
  the parser copies them unchecked and the filters compare them, so each holds a decoded
  value, and a member of an annotation may be \<open>undefined\<close>.
\<close>

record ApiAnnotation =
  family :: "json option"
  revision :: "json option"
  annotationStatus :: "json option"

record ParsedParameter =
  paramName :: string
  paramIn :: string
  paramType :: string
  paramFormat :: "string option"
  paramRequired :: bool
  paramDescription :: string
  paramDefault :: "json option"
  paramEnum :: "json option"

record ParsedBodyProperty =
  propName :: string
  propType :: string
  propFormat :: "string option"
  propDescription :: string
  propRequired :: bool
  propVisibility :: string
  propEnum :: "json option"
  propDefault :: "json option"

record ParsedRequestBody =
  bodyRequired :: bool
  bodySchema :: "json option"
  requiredFields :: "string list"
  properties :: "(string \<times> ParsedBodyProperty) list"

record ParsedOperation =
  operationId :: string
  httpMethod :: string
  path :: string
  summary :: string
  description :: string
  deprecated :: bool
  visibility :: json
  isTrigger :: bool
  apiAnnotation :: "ApiAnnotation option"
  parameters :: "ParsedParameter list"
  requestBody :: "ParsedRequestBody option"
  responseSchema :: "json option"

subsection \<open>Comparison of revisions\<close>

text \<open>
  The parser copies \<open>ann.family\<close>, \<open>ann.revision\<close> and \<open>ann.status\<close> from the document
  as they are, so a revision is any decoded value or \<open>undefined\<close>, and
  \<open>op.apiAnnotation.revision > existing.apiAnnotation!.revision\<close> is the relational
  comparison of JavaScript on such values. An object or an array becomes its string form;
  two strings are compared by code units; otherwise both sides become numbers, where
  \<open>undefined\<close> and a string that is not a numeric literal are \<open>NaN\<close>, and a comparison
  with \<open>NaN\<close> is false. A number is held exactly, as a mantissa and a power of ten;
  the rounding to a double is not modelled.
\<close>

datatype jsnum = NaN | NegInf | Fin int int | PosInf

definition isStrWhiteSpace :: "char \<Rightarrow> bool" where
  \<comment> \<open>white space and line terminators below 256\<close>
  "isStrWhiteSpace c = ((of_char c :: nat) \<in> set [9, 10, 11, 12, 13, 32, 160])"

definition trimJS :: "string \<Rightarrow> string" where
  "trimJS s = rev (dropWhile isStrWhiteSpace (rev (dropWhile isStrWhiteSpace s)))"

definition digitValue :: "char \<Rightarrow> nat" where
  \<comment> \<open>the value of a digit in a base up to 16; 36 for any other code unit\<close>
  "digitValue c =
     (let n = (of_char c :: nat)
      in if 48 \<le> n \<and> n \<le> 57 then n - 48
         else if 97 \<le> n \<and> n \<le> 102 then n - 87
         else if 65 \<le> n \<and> n \<le> 70 then n - 55
         else 36)"

definition digitsValue :: "nat \<Rightarrow> string \<Rightarrow> nat option" where
  \<comment> \<open>one or more digits of the base, and nothing else\<close>
  "digitsValue base ds =
     (if ds \<noteq> [] \<and> list_all (\<lambda>c. digitValue c < base) ds
      then Some (foldl (\<lambda>acc c. acc * base + digitValue c) 0 ds)
      else None)"

definition exponentPart :: "string \<Rightarrow> int option" where
  \<comment> \<open>what follows the digits of a decimal literal: nothing, or \<open>e\<close>, a sign and digits\<close>
  "exponentPart s =
     (if s = [] then Some 0
      else if hd s = CHR ''e'' \<or> hd s = CHR ''E'' then
        (let r = tl s
         in if r \<noteq> [] \<and> hd r = CHR ''+'' then map_option int (digitsValue 10 (tl r))
            else if r \<noteq> [] \<and> hd r = CHR ''-'' then map_option (\<lambda>n. - int n) (digitsValue 10 (tl r))
            else map_option int (digitsValue 10 r))
      else None)"

definition decimalLiteral :: "string \<Rightarrow> jsnum" where
  \<comment> \<open>a sign, then \<open>Infinity\<close> or digits with an optional point and exponent\<close>
  "decimalLiteral t =
     (let negative = (t \<noteq> [] \<and> hd t = CHR ''-'');
          u = (if t \<noteq> [] \<and> (hd t = CHR ''+'' \<or> hd t = CHR ''-'') then tl t else t)
      in if u = ''Infinity'' then (if negative then NegInf else PosInf)
         else
           (let whole = takeWhile isDigit09 u;
                afterWhole = dropWhile isDigit09 u;
                hasPoint = (afterWhole \<noteq> [] \<and> hd afterWhole = CHR ''.'');
                frac = (if hasPoint then takeWhile isDigit09 (tl afterWhole) else []);
                afterFrac = (if hasPoint then dropWhile isDigit09 (tl afterWhole) else afterWhole)
            in if whole = [] \<and> frac = [] then NaN
               else (case exponentPart afterFrac of
                       None \<Rightarrow> NaN
                     | Some ex \<Rightarrow>
                         (case digitsValue 10 (whole @ frac) of
                            None \<Rightarrow> NaN
                          | Some m \<Rightarrow>
                              Fin (if negative then - int m else int m)
                                  (ex - int (length frac))))))"

definition nonDecimalLiteral :: "nat \<Rightarrow> string \<Rightarrow> jsnum" where
  "nonDecimalLiteral base ds =
     (case digitsValue base ds of None \<Rightarrow> NaN | Some n \<Rightarrow> Fin (int n) 0)"

definition stringToNumber :: "string \<Rightarrow> jsnum" where
  "stringToNumber s =
     (let t = trimJS s;
          prefix = take 2 t
      in if t = [] then Fin 0 0
         else if prefix = ''0x'' \<or> prefix = ''0X'' then nonDecimalLiteral 16 (drop 2 t)
         else if prefix = ''0o'' \<or> prefix = ''0O'' then nonDecimalLiteral 8 (drop 2 t)
         else if prefix = ''0b'' \<or> prefix = ''0B'' then nonDecimalLiteral 2 (drop 2 t)
         else decimalLiteral t)"

fun toPrimitive :: "json option \<Rightarrow> json option" where
  "toPrimitive (Some (JArr xs)) = Some (JStr (toStringJS (JArr xs)))"
| "toPrimitive (Some (JObj kvs)) = Some (JStr (toStringJS (JObj kvs)))"
| "toPrimitive v = v"

fun toNumber :: "json option \<Rightarrow> jsnum" where
  "toNumber None = NaN"
| "toNumber (Some JNull) = Fin 0 0"
| "toNumber (Some (JBool b)) = Fin (if b then 1 else 0) 0"
| "toNumber (Some (JNum n)) = Fin n 0"
| "toNumber (Some (JStr s)) = stringToNumber s"
| "toNumber (Some (JArr xs)) = stringToNumber (toStringJS (JArr xs))"
| "toNumber (Some (JObj kvs)) = stringToNumber (toStringJS (JObj kvs))"

fun lessNum :: "jsnum \<Rightarrow> jsnum \<Rightarrow> bool" where
  "lessNum (Fin m1 e1) (Fin m2 e2) =
     (let k = min e1 e2 in m1 * 10 ^ nat (e1 - k) < m2 * 10 ^ nat (e2 - k))"
| "lessNum NaN b = False"
| "lessNum a NaN = False"
| "lessNum a NegInf = False"
| "lessNum NegInf b = True"
| "lessNum PosInf b = False"
| "lessNum a PosInf = True"

fun lessUnits :: "string \<Rightarrow> string \<Rightarrow> bool" where
  \<comment> \<open>the order of two strings, code unit by code unit\<close>
  "lessUnits [] [] = False"
| "lessUnits [] (y # ys) = True"
| "lessUnits (x # xs) [] = False"
| "lessUnits (x # xs) (y # ys) =
     ((of_char x :: nat) < of_char y \<or> (x = y \<and> lessUnits xs ys))"

definition greaterThanJS :: "json option \<Rightarrow> json option \<Rightarrow> bool" where
  \<comment> \<open>\<open>a > b\<close>\<close>
  "greaterThanJS a b =
     (case (toPrimitive a, toPrimitive b) of
        (Some (JStr x), Some (JStr y)) \<Rightarrow> lessUnits y x
      | (pa, pb) \<Rightarrow> lessNum (toNumber pb) (toNumber pa))"

subsection \<open>Deduplication and filtering\<close>

text \<open>
  \<^verbatim>\<open>
  export function deduplicateByFamily(ops: ParsedOperation[]): ParsedOperation[] {
    const familyMap = new Map<string, ParsedOperation>();
    for (const op of ops) {
      if (op.apiAnnotation?.family) {
        const existing = familyMap.get(op.apiAnnotation.family);
        if (!existing || op.apiAnnotation.revision > existing.apiAnnotation!.revision) {
          familyMap.set(op.apiAnnotation.family, op);
        }
      }
    }
    const result: ParsedOperation[] = [];
    const familyOps = new Set(familyMap.values());
    for (const op of ops) {
      if (op.apiAnnotation?.family) {
        if (familyOps.has(op)) { result.push(op); }
      } else if (!op.deprecated) { result.push(op); }
    }
    return result;
  }
  \<close>
  The array holds references to objects and \<open>familyOps.has(op)\<close> compares references, so
  two operations with equal fields are still two operations. An array is modelled as a
  list of references together with the store that gives the object behind each reference.
  The \<open>Map\<close> is an association list in insertion order. Its keys are compared the way a
  \<open>Map\<close> compares them: a string, a number or a boolean by its value, an object or an
  array by reference. A family that is an object or an array belongs to the annotation
  of one operation, so its reference is given by the reference of that operation.
\<close>

type_synonym ref = nat

datatype family_key = PrimitiveKey json | ObjectKey ref

definition familyOf :: "(ref \<Rightarrow> ParsedOperation) \<Rightarrow> ref \<Rightarrow> family_key option" where
  \<comment> \<open>the test \<open>op.apiAnnotation?.family\<close> and, when it is truthy, the key of the family\<close>
  "familyOf store op =
     (case apiAnnotation (store op) of
        None \<Rightarrow> None
      | Some a \<Rightarrow>
          (case family a of
             None \<Rightarrow> None
           | Some v \<Rightarrow>
               if truthy v
               then Some (case v of
                            JArr xs \<Rightarrow> ObjectKey op
                          | JObj kvs \<Rightarrow> ObjectKey op
                          | _ \<Rightarrow> PrimitiveKey v)
               else None))"

definition revisionOf :: "ParsedOperation \<Rightarrow> json option" where
  \<comment> \<open>\<open>op.apiAnnotation!.revision\<close>, read only of operations that carry an annotation\<close>
  "revisionOf op = (case apiAnnotation op of Some a \<Rightarrow> revision a | None \<Rightarrow> None)"

fun buildFamilyMap ::
  "(ref \<Rightarrow> ParsedOperation) \<Rightarrow> ref list \<Rightarrow> (family_key \<times> ref) list
   \<Rightarrow> (family_key \<times> ref) list" where
  "buildFamilyMap store [] familyMap = familyMap"
| "buildFamilyMap store (op # ops) familyMap =
     buildFamilyMap store ops
       (case familyOf store op of
          Some fam \<Rightarrow>
            (case map_of familyMap fam of
               None \<Rightarrow> AList.update fam op familyMap
             | Some existing \<Rightarrow>
                 if greaterThanJS (revisionOf (store op)) (revisionOf (store existing))
                 then AList.update fam op familyMap else familyMap)
        | None \<Rightarrow> familyMap)"

definition deduplicateByFamily :: "(ref \<Rightarrow> ParsedOperation) \<Rightarrow> ref list \<Rightarrow> ref list" where
  "deduplicateByFamily store ops =
     (let familyMap = buildFamilyMap store ops [];
          familyOps = set (map snd familyMap)
      in filter (\<lambda>op. case familyOf store op of
                         Some fam \<Rightarrow> op \<in> familyOps
                       | None \<Rightarrow> \<not> deprecated (store op)) ops)"

text \<open>
  \<^verbatim>\<open>
  export function filterOperations(ops: ParsedOperation[]): ParsedOperation[] {
    const filtered = ops.filter((op) => {
      if (op.visibility === "internal") return false;
      if (op.isTrigger) return false;
      if (op.path.includes("$subscriptions")) return false;
      return true;
    });
    return deduplicateByFamily(filtered);
  }
  \<close>
\<close>

definition passesFilters :: "ParsedOperation \<Rightarrow> bool" where
  "passesFilters op =
     (if visibility op = JStr ''internal'' then False
      else if isTrigger op then False
      else if includesStr (path op) ''$subscriptions'' then False
      else True)"

definition filterOperations :: "(ref \<Rightarrow> ParsedOperation) \<Rightarrow> ref list \<Rightarrow> ref list" where
  "filterOperations store ops =
     (let filtered = filter (\<lambda>op. passesFilters (store op)) ops
      in deduplicateByFamily store filtered)"

text \<open>
  The property of family deduplication in the words of the specification, for an input
  array and an output array over one store: of every family present among the input
  operations that carry a family exactly one member is in the output, it has the maximum
  revision among the input members of the family and is the first input member with that
  revision; an operation without a family is in the output iff it is not deprecated; and
  the output is the input with the other operations taken out, in the input's order.
  Revisions are compared as the numbers they are typed as.
\<close>

definition revisionAtMost :: "ParsedOperation \<Rightarrow> ParsedOperation \<Rightarrow> bool" where
  "revisionAtMost x w =
     (case (revisionOf x, revisionOf w) of
        (Some (JNum n), Some (JNum m)) \<Rightarrow> n \<le> m
      | _ \<Rightarrow> False)"

definition familyDedupSpec :: "(ref \<Rightarrow> ParsedOperation) \<Rightarrow> ref list \<Rightarrow> ref list \<Rightarrow> bool" where
  "familyDedupSpec store input output \<longleftrightarrow>
     (\<forall>op \<in> set input. \<forall>fam. familyOf store op = Some fam \<longrightarrow>
        (\<exists>w \<in> set input.
            familyOf store w = Some fam
          \<and> {x \<in> set output. familyOf store x = Some fam} = {w}
          \<and> (\<forall>x \<in> set input. familyOf store x = Some fam
                 \<longrightarrow> revisionAtMost (store x) (store w))
          \<and> find (\<lambda>x. familyOf store x = Some fam
                        \<and> revisionAtMost (store w) (store x)) input = Some w
          \<and> (distinct input \<longrightarrow>
                 length (filter (\<lambda>x. familyOf store x = Some fam) output) = 1)))
   \<and> (\<forall>op \<in> set input. familyOf store op = None \<longrightarrow>
          (op \<in> set output \<longleftrightarrow> \<not> deprecated (store op)))
   \<and> output = filter (\<lambda>op. op \<in> set output) input"

text \<open>
  The revisions the specification has in mind: every input operation that carries a family
  has a number as its revision.
\<close>

definition numericRevisions :: "(ref \<Rightarrow> ParsedOperation) \<Rightarrow> ref list \<Rightarrow> bool" where
  "numericRevisions store ops =
     list_all (\<lambda>op. case familyOf store op of
                      None \<Rightarrow> True
                    | Some fam \<Rightarrow> (case revisionOf (store op) of
                                    Some (JNum n) \<Rightarrow> True
                                  | _ \<Rightarrow> False)) ops"

text \<open>
  What holds of the output for any revisions at all: of every family exactly one member
  is in the output, and no member of the family that comes after it in the input compares
  greater than it; the operations without a family and the order are as above.
\<close>

definition familyKeepSpec :: "(ref \<Rightarrow> ParsedOperation) \<Rightarrow> ref list \<Rightarrow> ref list \<Rightarrow> bool" where
  "familyKeepSpec store input output \<longleftrightarrow>
     (\<forall>op \<in> set input. \<forall>fam. familyOf store op = Some fam \<longrightarrow>
        (\<exists>w pre post.
            input = pre @ w # post
          \<and> familyOf store w = Some fam
          \<and> {x \<in> set output. familyOf store x = Some fam} = {w}
          \<and> (\<forall>x \<in> set post. familyOf store x = Some fam
                 \<longrightarrow> \<not> greaterThanJS (revisionOf (store x)) (revisionOf (store w)))
          \<and> (distinct input \<longrightarrow>
                 length (filter (\<lambda>x. familyOf store x = Some fam) output) = 1)))
   \<and> (\<forall>op \<in> set input. familyOf store op = None \<longrightarrow>
          (op \<in> set output \<longleftrightarrow> \<not> deprecated (store op)))
   \<and> output = filter (\<lambda>op. op \<in> set output) input"

text \<open>The winner of one family, as the first loop keeps it in \<open>familyMap\<close>.\<close>

fun bestOf :: "(ref \<Rightarrow> ParsedOperation) \<Rightarrow> family_key \<Rightarrow> ref list \<Rightarrow> ref option \<Rightarrow> ref option" where
  "bestOf store fam [] cur = cur"
| "bestOf store fam (op # ops) cur =
     bestOf store fam ops
       (if familyOf store op = Some fam then
          (case cur of
             None \<Rightarrow> Some op
           | Some existing \<Rightarrow>
               if greaterThanJS (revisionOf (store op)) (revisionOf (store existing)) then Some op
               else Some existing)
        else cur)"

text \<open>Operations used as concrete inputs below: the two revisions of \<open>DeleteMessage\<close>
  of the parser's tests, an operation without a family, a deprecated one and an internal
  one; two operations of one family of which the first has no revision; and a family
  whose latest revision is internal.\<close>

definition baseOp :: ParsedOperation where
  "baseOp =
     \<lparr>operationId = ''GetMessage'', httpMethod = ''get'',
      path = ''/{connectionId}/v2/Mail/{messageId}'', summary = ''Get a message'',
      description = ''Gets a message by ID'', deprecated = False, visibility = JStr ''none'',
      isTrigger = False, apiAnnotation = None, parameters = [], requestBody = None,
      responseSchema = None\<rparr>"

definition demoStore :: "ref \<Rightarrow> ParsedOperation" where
  "demoStore r =
     (if r = 0 then
        baseOp\<lparr>operationId := ''DeleteMessage'', httpMethod := ''delete'', deprecated := True,
          apiAnnotation := Some \<lparr>family = Some (JStr ''DeleteMessage''),
                                  revision = Some (JNum 1),
                                  annotationStatus = Some (JStr ''Production'')\<rparr>\<rparr>
      else if r = 1 then
        baseOp\<lparr>operationId := ''DeleteMessageV2'', httpMethod := ''delete'',
          apiAnnotation := Some \<lparr>family = Some (JStr ''DeleteMessage''),
                                  revision = Some (JNum 2),
                                  annotationStatus = Some (JStr ''Production'')\<rparr>\<rparr>
      else if r = 2 then baseOp
      else if r = 3 then baseOp\<lparr>operationId := ''GetMessageOld'', deprecated := True\<rparr>
      else baseOp\<lparr>operationId := ''InternalOp'', visibility := JStr ''internal''\<rparr>)"

definition unrevisedStore :: "ref \<Rightarrow> ParsedOperation" where
  "unrevisedStore r =
     (if r = 0 then
        baseOp\<lparr>operationId := ''OpA'',
          apiAnnotation := Some \<lparr>family = Some (JStr ''Ops''), revision = None,
                                  annotationStatus = None\<rparr>\<rparr>
      else
        baseOp\<lparr>operationId := ''OpB'',
          apiAnnotation := Some \<lparr>family = Some (JStr ''Ops''), revision = Some (JNum 2),
                                  annotationStatus = None\<rparr>\<rparr>)"

definition internalLatestStore :: "ref \<Rightarrow> ParsedOperation" where
  "internalLatestStore r =
     (if r = 0 then
        baseOp\<lparr>operationId := ''DeleteMessage'', httpMethod := ''delete'',
          apiAnnotation := Some \<lparr>family = Some (JStr ''DeleteMessage''),
                                  revision = Some (JNum 1),
                                  annotationStatus = Some (JStr ''Production'')\<rparr>\<rparr>
      else if r = 1 then
        baseOp\<lparr>operationId := ''DeleteMessageV2'', httpMethod := ''delete'',
          visibility := JStr ''internal'',
          apiAnnotation := Some \<lparr>family = Some (JStr ''DeleteMessage''),
                                  revision = Some (JNum 2),
                                  annotationStatus = Some (JStr ''Preview'')\<rparr>\<rparr>
      else baseOp\<lparr>operationId := ''InternalOp'', visibility := JStr ''internal''\<rparr>)"

section \<open>Reading decoded JSON\<close>

text \<open>
  The ARM responses and the Swagger documents are typed \<open>any\<close> in the source. The
  functions below read them the way the source does: a property of \<open>undefined\<close> or
  \<open>null\<close> read without \<open>?.\<close> throws a \<open>TypeError\<close>, a missing property is
  \<open>undefined\<close>. A field that the interfaces type as \<open>string\<close> is kept in its string
  form (\<open>String(v)\<close>): ARM and the connector documents give strings there, and the
  functions modelled here use such a field inside template literals and comparisons with
  strings. Two of them call a string method on such a field: \<open>buildToolName\<close> on the
  operation id and \<open>sanitizeKey\<close> on the name of a parameter. On a value that is not a
  string that call throws; the operation ids and parameter names here are strings, and
  that throw is outside the model. The visibility of an operation and the members of its
  annotation are not used that way: they are compared, and they are kept as the values
  they are.
\<close>

datatype js_error =
    ArmFailure arm_error
  | TypeError
  | Rejected string

definition asString :: "json option \<Rightarrow> string" where
  "asString v = (case v of None \<Rightarrow> ''undefined'' | Some x \<Rightarrow> toStringJS x)"

definition truthyOpt :: "json option \<Rightarrow> bool" where
  "truthyOpt v = (case v of None \<Rightarrow> False | Some x \<Rightarrow> truthy x)"

definition getPropOpt :: "json option \<Rightarrow> string \<Rightarrow> json option" where
  \<comment> \<open>\<open>v?.[k]\<close>\<close>
  "getPropOpt v k = (case v of None \<Rightarrow> None | Some x \<Rightarrow> getProp x k)"

definition orDefault :: "json option \<Rightarrow> string \<Rightarrow> string" where
  \<comment> \<open>\<open>v ?? "d"\<close> for a field typed \<open>string\<close>\<close>
  "orDefault v d = toStringJS (nullishOr v (JStr d))"

definition definedOpt :: "json option \<Rightarrow> json option" where
  \<comment> \<open>the guard \<open>if (v) field = v\<close>: a falsy value leaves the field out\<close>
  "definedOpt v = (if truthyOpt v then v else None)"

fun entries :: "json option \<Rightarrow> js_error + (string \<times> json) list" where
  \<comment> \<open>\<open>Object.entries(v)\<close>\<close>
  "entries None = Inl TypeError"
| "entries (Some JNull) = Inl TypeError"
| "entries (Some (JObj kvs)) = Inr kvs"
| "entries (Some (JArr xs)) = Inr (zip (map showNat [0 ..< length xs]) xs)"
| "entries (Some (JStr s)) = Inr (zip (map showNat [0 ..< length s]) (map (\<lambda>c. JStr [c]) s))"
| "entries (Some (JBool b)) = Inr []"
| "entries (Some (JNum n)) = Inr []"

fun iterateOrEmpty :: "json option \<Rightarrow> js_error + json list" where
  \<comment> \<open>the values of \<open>for (const x of v ?? [])\<close>\<close>
  "iterateOrEmpty None = Inr []"
| "iterateOrEmpty (Some JNull) = Inr []"
| "iterateOrEmpty (Some (JArr xs)) = Inr xs"
| "iterateOrEmpty (Some (JStr s)) = Inr (map (\<lambda>c. JStr [c]) s)"
| "iterateOrEmpty (Some (JObj kvs)) = Inl TypeError"
| "iterateOrEmpty (Some (JBool b)) = Inl TypeError"
| "iterateOrEmpty (Some (JNum n)) = Inl TypeError"

fun replaceFirstLit :: "string \<Rightarrow> string \<Rightarrow> string \<Rightarrow> string" where
  \<comment> \<open>\<open>s.replace(needle, repl)\<close> for a string \<open>needle\<close> and a replacement without \<open>$\<close>:
      the first occurrence is replaced\<close>
  "replaceFirstLit needle repl [] = (if needle = [] then repl else [])"
| "replaceFirstLit needle repl (c # cs) =
     (if startsWith (c # cs) needle then repl @ drop (length needle) (c # cs)
      else c # replaceFirstLit needle repl cs)"

fun splitOn :: "char \<Rightarrow> string \<Rightarrow> string list" where
  \<comment> \<open>\<open>s.split(sep)\<close> for a separator of one code unit\<close>
  "splitOn sep [] = [[]]"
| "splitOn sep (c # cs) =
     (case splitOn sep cs of
        [] \<Rightarrow> [[c]]
      | p # ps \<Rightarrow> if c = sep then [] # p # ps else (c # p) # ps)"

section \<open>OpenAPI parser (openApiParser.ts)\<close>

text \<open>
  \<^verbatim>\<open>
  function resolveRef(ref: string, definitions: Record<string, any> | undefined): any {
    if (!ref || !definitions) return undefined;
    const parts = ref.replace("#/definitions/", "").split("/");
    let resolved: any = definitions;
    for (const part of parts) { resolved = resolved?.[part]; }
    return resolved ? JSON.parse(JSON.stringify(resolved)) : undefined;
  }
  function resolveSchema(schema: any, definitions: ...): any {
    if (!schema) return undefined;
    if (schema.$ref) { return resolveRef(schema.$ref, definitions); }
    return JSON.parse(JSON.stringify(schema));
  }
  \<close>
  The deep copy of a decoded JSON value is the value. A \<open>$ref\<close> that is not a string has
  no \<open>replace\<close>: a \<open>TypeError\<close>.
\<close>

definition readMember :: "json option \<Rightarrow> string \<Rightarrow> json option" where
  \<comment> \<open>\<open>resolved?.[part]\<close> for any segment of a reference: a property of an object, an
      element or the length of an array, a code unit or the length of a string\<close>
  "readMember v part =
     (case v of
        Some (JObj kvs) \<Rightarrow> map_of kvs part
      | Some (JArr xs) \<Rightarrow>
          (if part = ''length'' then Some (JNum (int (length xs)))
           else map_option (\<lambda>i. xs ! i) (find (\<lambda>i. showNat i = part) [0 ..< length xs]))
      | Some (JStr s) \<Rightarrow>
          (if part = ''length'' then Some (JNum (int (length s)))
           else map_option (\<lambda>i. JStr [s ! i]) (find (\<lambda>i. showNat i = part) [0 ..< length s]))
      | _ \<Rightarrow> None)"

definition resolveRef :: "json \<Rightarrow> json option \<Rightarrow> js_error + json option" where
  "resolveRef ref definitions =
     (if \<not> truthy ref \<or> \<not> truthyOpt definitions then Inr None
      else case ref of
             JStr r \<Rightarrow>
               (let parts = splitOn CHR ''/'' (replaceFirstLit ''#/definitions/'' [] r);
                    resolved = foldl (\<lambda>acc part. readMember acc part) definitions parts
                in Inr (definedOpt resolved))
           | _ \<Rightarrow> Inl TypeError)"

definition resolveSchema :: "json option \<Rightarrow> json option \<Rightarrow> js_error + json option" where
  "resolveSchema schema definitions =
     (case schema of
        None \<Rightarrow> Inr None
      | Some v \<Rightarrow>
          if \<not> truthy v then Inr None
          else (case definedOpt (getProp v ''$ref'') of
                  Some ref \<Rightarrow> resolveRef ref definitions
                | None \<Rightarrow> Inr (Some v)))"

text \<open>
  \<^verbatim>\<open>
  function flattenBodyProperties(schema, definitions, requiredFields, depth = 0) {
    const props: Record<string, ParsedBodyProperty> = {};
    if (!schema?.properties) return props;
    for (const [name, raw] of Object.entries<any>(schema.properties)) {
      let propSchema = raw;
      if (propSchema.$ref) {
        propSchema = resolveRef(propSchema.$ref, definitions) ?? propSchema;
      }
      let type = propSchema.type ?? "object";
      const format = propSchema.format;
      if (type === "object" && depth < MAX_DEPTH && propSchema.properties) {
        type = "string (JSON)";
      }
      const prop: ParsedBodyProperty = {
        name, type,
        description: propSchema.description ?? "",
        required: requiredFields.includes(name),
        visibility: propSchema["x-ms-visibility"] ?? "none",
      };
      if (format) prop.format = format;
      if (propSchema.enum) prop.enum = propSchema.enum;
      if (propSchema.default !== undefined) prop.default = propSchema.default;
      props[name] = prop;
    }
    return props;
  }
  \<close>
  The only call passes no \<open>depth\<close>, so \<open>depth < MAX_DEPTH\<close> holds.
\<close>

fun includesJS :: "json \<Rightarrow> string \<Rightarrow> js_error + bool" where
  \<comment> \<open>\<open>requiredFields.includes(name)\<close>: on an array, on a string, or not a function\<close>
  "includesJS (JArr xs) name = Inr (JStr name \<in> set xs)"
| "includesJS (JStr s) name = Inr (includesStr s name)"
| "includesJS v name = Inl TypeError"

definition flattenOne ::
  "json option \<Rightarrow> json \<Rightarrow> string \<times> json \<Rightarrow> js_error + (string \<times> ParsedBodyProperty)" where
  "flattenOne definitions reqFields entry =
     (case entry of (name, raw) \<Rightarrow>
        if raw = JNull then Inl TypeError
        else
          (case (case definedOpt (getProp raw ''$ref'') of
                   Some ref \<Rightarrow>
                     (case resolveRef ref definitions of
                        Inl e \<Rightarrow> Inl e
                      | Inr r \<Rightarrow> Inr (nullishOr r raw))
                 | None \<Rightarrow> Inr raw) of
             Inl e \<Rightarrow> Inl e
           | Inr propSchema \<Rightarrow>
               (case includesJS reqFields name of
                  Inl e \<Rightarrow> Inl e
                | Inr req \<Rightarrow>
                    (let type0 = orDefault (getProp propSchema ''type'') ''object'';
                         type1 = (if type0 = ''object'' \<and> truthyOpt (getProp propSchema ''properties'')
                                  then ''string (JSON)'' else type0)
                     in Inr (name,
                          \<lparr>propName = name, propType = type1,
                           propFormat = map_option toStringJS (definedOpt (getProp propSchema ''format'')),
                           propDescription = orDefault (getProp propSchema ''description'') [],
                           propRequired = req,
                           propVisibility = orDefault (getProp propSchema ''x-ms-visibility'') ''none'',
                           propEnum = definedOpt (getProp propSchema ''enum''),
                           propDefault = getProp propSchema ''default''\<rparr>)))))"

fun mapE :: "('a \<Rightarrow> js_error + 'b) \<Rightarrow> 'a list \<Rightarrow> js_error + 'b list" where
  \<comment> \<open>a loop that builds a list and stops at the first exception\<close>
  "mapE f [] = Inr []"
| "mapE f (x # xs) =
     (case f x of
        Inl e \<Rightarrow> Inl e
      | Inr y \<Rightarrow> (case mapE f xs of Inl e \<Rightarrow> Inl e | Inr ys \<Rightarrow> Inr (y # ys)))"

definition flattenBodyProperties ::
  "json option \<Rightarrow> json option \<Rightarrow> json \<Rightarrow> js_error + (string \<times> ParsedBodyProperty) list" where
  "flattenBodyProperties schema definitions reqFields =
     (if \<not> truthyOpt (getPropOpt schema ''properties'') then Inr []
      else case entries (getPropOpt schema ''properties'') of
             Inl e \<Rightarrow> Inl e
           | Inr es \<Rightarrow> mapE (flattenOne definitions reqFields) es)"

text \<open>
  \<^verbatim>\<open>
      for (const param of op.parameters ?? []) {
        if (param.in === "body") {
          const schema = resolveSchema(param.schema, swagger.definitions);
          const requiredFields: string[] = schema?.required ?? [];
          requestBody = {
            required: !!param.required, schema, requiredFields,
            properties: flattenBodyProperties(schema, swagger.definitions, requiredFields),
          };
        } else {
          const p: ParsedParameter = {
            name: param.name, in: param.in, type: param.type ?? "string",
            required: !!param.required, description: param.description ?? "",
          };
          if (param.format) p.format = param.format;
          if (param.default !== undefined) p.default = param.default;
          if (param.enum) p.enum = param.enum;
          ...
          parameters.push(p);
        }
      }
  \<close>
\<close>

fun stringsOf :: "json \<Rightarrow> string list" where
  \<comment> \<open>the value of \<open>requiredFields\<close>, typed \<open>string[]\<close>\<close>
  "stringsOf (JArr xs) = map toStringJS xs"
| "stringsOf v = []"

definition parseBodyParam :: "json option \<Rightarrow> json \<Rightarrow> js_error + ParsedRequestBody" where
  "parseBodyParam definitions param =
     (case resolveSchema (getProp param ''schema'') definitions of
        Inl e \<Rightarrow> Inl e
      | Inr schema \<Rightarrow>
          (let reqFields = nullishOr (getPropOpt schema ''required'') (JArr [])
           in case flattenBodyProperties schema definitions reqFields of
                Inl e \<Rightarrow> Inl e
              | Inr props \<Rightarrow>
                  Inr \<lparr>bodyRequired = truthyOpt (getProp param ''required''),
                       bodySchema = schema,
                       requiredFields = stringsOf reqFields,
                       properties = props\<rparr>))"

definition parsePlainParam :: "json \<Rightarrow> ParsedParameter" where
  "parsePlainParam param =
     \<lparr>paramName = asString (getProp param ''name''),
      paramIn = asString (getProp param ''in''),
      paramType = orDefault (getProp param ''type'') ''string'',
      paramFormat = map_option toStringJS (definedOpt (getProp param ''format'')),
      paramRequired = truthyOpt (getProp param ''required''),
      paramDescription = orDefault (getProp param ''description'') [],
      paramDefault = getProp param ''default'',
      paramEnum = definedOpt (getProp param ''enum'')\<rparr>"

fun parseParams ::
  "json option \<Rightarrow> json list \<Rightarrow> ParsedParameter list \<Rightarrow> ParsedRequestBody option
   \<Rightarrow> js_error + (ParsedParameter list \<times> ParsedRequestBody option)" where
  "parseParams definitions [] params reqBody = Inr (params, reqBody)"
| "parseParams definitions (param # rest) params reqBody =
     (if param = JNull then Inl TypeError
      else if getProp param ''in'' = Some (JStr ''body'') then
        (case parseBodyParam definitions param of
           Inl e \<Rightarrow> Inl e
         | Inr b \<Rightarrow> parseParams definitions rest params (Some b))
      else parseParams definitions rest (params @ [parsePlainParam param]) reqBody)"

text \<open>
  \<^verbatim>\<open>
      const operationId: string = op.operationId ?? `${method}_${path}`;
      const visibility: string = op["x-ms-visibility"] ?? "none";
      const isTrigger: boolean = !!op["x-ms-trigger"];
      const deprecated: boolean = !!op.deprecated;
      let apiAnnotation: ParsedOperation["apiAnnotation"];
      if (op["x-ms-api-annotation"]) {
        const ann = op["x-ms-api-annotation"];
        apiAnnotation = { family: ann.family, revision: ann.revision, status: ann.status };
      }
      ...
      const resp200 = op.responses?.["200"];
      const resp201 = op.responses?.["201"];
      const respSchema = resp200?.schema ?? resp201?.schema;
      if (respSchema) { responseSchema = resolveSchema(respSchema, swagger.definitions); }
  \<close>
  The members of the annotation are copied as they are: each is a decoded value, or
  \<open>undefined\<close> when the annotation has no such member.
\<close>

definition parseAnnotation :: "json \<Rightarrow> ApiAnnotation" where
  "parseAnnotation ann =
     \<lparr>family = getProp ann ''family'',
      revision = getProp ann ''revision'',
      annotationStatus = getProp ann ''status''\<rparr>"

definition parseResponseSchema :: "json option \<Rightarrow> json \<Rightarrow> js_error + json option" where
  "parseResponseSchema definitions op =
     (let responses = getProp op ''responses'';
          resp200 = getPropOpt responses ''200'';
          resp201 = getPropOpt responses ''201'';
          respSchema = (case getPropOpt resp200 ''schema'' of
                          None \<Rightarrow> getPropOpt resp201 ''schema''
                        | Some JNull \<Rightarrow> getPropOpt resp201 ''schema''
                        | Some v \<Rightarrow> Some v)
      in if truthyOpt respSchema then
           (case resolveSchema respSchema definitions of
              Inl e \<Rightarrow> Inl e
            | Inr r \<Rightarrow> Inr (definedOpt r))
         else Inr None)"

definition parseOperation ::
  "json option \<Rightarrow> string \<Rightarrow> string \<Rightarrow> json \<Rightarrow> js_error + ParsedOperation" where
  "parseOperation definitions pathKey methodKey op =
     (case iterateOrEmpty (getProp op ''parameters'') of
        Inl e \<Rightarrow> Inl e
      | Inr ps \<Rightarrow>
          (case parseParams definitions ps [] None of
             Inl e \<Rightarrow> Inl e
           | Inr (params, reqBody) \<Rightarrow>
               (case parseResponseSchema definitions op of
                  Inl e \<Rightarrow> Inl e
                | Inr respSchema \<Rightarrow>
                    Inr \<lparr>operationId = orDefault (getProp op ''operationId'')
                                         (methodKey @ ''_'' @ pathKey),
                         httpMethod = methodKey,
                         path = pathKey,
                         summary = orDefault (getProp op ''summary'') [],
                         description = orDefault (getProp op ''description'') [],
                         deprecated = truthyOpt (getProp op ''deprecated''),
                         visibility = nullishOr (getProp op ''x-ms-visibility'') (JStr ''none''),
                         isTrigger = truthyOpt (getProp op ''x-ms-trigger''),
                         apiAnnotation = map_option parseAnnotation
                                           (definedOpt (getProp op ''x-ms-api-annotation'')),
                         parameters = params,
                         requestBody = reqBody,
                         responseSchema = respSchema\<rparr>)))"

definition HTTP_METHODS :: "string list" where
  "HTTP_METHODS = [''get'', ''post'', ''put'', ''patch'', ''delete'']"

fun parseMethods ::
  "json option \<Rightarrow> string \<Rightarrow> json \<Rightarrow> string list \<Rightarrow> js_error + ParsedOperation list" where
  "parseMethods definitions pathKey pathItem [] = Inr []"
| "parseMethods definitions pathKey pathItem (m # ms) =
     (if pathItem = JNull then Inl TypeError
      else case definedOpt (getProp pathItem m) of
             None \<Rightarrow> parseMethods definitions pathKey pathItem ms
           | Some op \<Rightarrow>
               (case parseOperation definitions pathKey m op of
                  Inl e \<Rightarrow> Inl e
                | Inr parsed \<Rightarrow>
                    (case parseMethods definitions pathKey pathItem ms of
                       Inl e \<Rightarrow> Inl e
                     | Inr others \<Rightarrow> Inr (parsed # others))))"

text \<open>
  \<^verbatim>\<open>
  export function parseOpenApiSpec(swagger: SwaggerDoc, apiName: string): ParsedOperation[] {
    const operations: ParsedOperation[] = [];
    for (const [path, pathItem] of Object.entries(swagger.paths)) {
      for (const method of HTTP_METHODS) {
        const op = pathItem[method];
        if (!op) continue;
        ...
        operations.push(parsed);
      }
    }
    return operations;
  }
  \<close>
\<close>

definition parseOpenApiSpec :: "json \<Rightarrow> string \<Rightarrow> js_error + ParsedOperation list" where
  "parseOpenApiSpec swagger apiLabel =
     (if swagger = JNull then Inl TypeError
      else case entries (getProp swagger ''paths'') of
             Inl e \<Rightarrow> Inl e
           | Inr pathEntries \<Rightarrow>
               (case mapE (\<lambda>(pathKey, pathItem).
                             parseMethods (getProp swagger ''definitions'') pathKey pathItem
                               HTTP_METHODS) pathEntries of
                  Inl e \<Rightarrow> Inl e
                | Inr opss \<Rightarrow> Inr (concat opss)))"

text \<open>The Swagger document of the tests of \<open>dynamicTools.ts\<close> (\<open>makeSwagger\<close>).\<close>

definition testSwagger :: json where
  "testSwagger =
     JObj [(''swagger'', JStr ''2.0''),
           (''info'', JObj [(''title'', JStr ''Test''), (''version'', JStr ''1.0'')]),
           (''host'', JStr ''api.test.com''),
           (''paths'', JObj
              [(''/{connectionId}/v2/Mail'', JObj
                  [(''post'', JObj
                      [(''operationId'', JStr ''SendEmail''),
                       (''summary'', JStr ''Send an email''),
                       (''description'', JStr ''Sends an email message''),
                       (''parameters'', JArr
                          [JObj [(''name'', JStr ''connectionId''), (''in'', JStr ''path''),
                                 (''type'', JStr ''string''), (''required'', JBool True)]]),
                       (''responses'', JObj [(''200'', JObj [(''description'', JStr ''OK'')])])])]),
               (''/{connectionId}/v2/Mail/{messageId}'', JObj
                  [(''get'', JObj
                      [(''operationId'', JStr ''GetMessage''),
                       (''summary'', JStr ''Get a message''),
                       (''description'', JStr ''Gets a message by ID''),
                       (''parameters'', JArr
                          [JObj [(''name'', JStr ''connectionId''), (''in'', JStr ''path''),
                                 (''type'', JStr ''string''), (''required'', JBool True)],
                           JObj [(''name'', JStr ''messageId''), (''in'', JStr ''path''),
                                 (''type'', JStr ''string''), (''required'', JBool True)]]),
                       (''responses'', JObj [(''200'', JObj [(''description'', JStr ''OK'')])])])])])]"

text \<open>A document with two operations of one family, of which the first has no revision.\<close>

definition unrevisedSwagger :: json where
  "unrevisedSwagger =
     JObj [(''swagger'', JStr ''2.0''),
           (''paths'', JObj
              [(''/{connectionId}/a'', JObj
                  [(''get'', JObj
                      [(''operationId'', JStr ''OpA''),
                       (''x-ms-api-annotation'', JObj [(''family'', JStr ''Ops'')])])]),
               (''/{connectionId}/b'', JObj
                  [(''get'', JObj
                      [(''operationId'', JStr ''OpB''),
                       (''x-ms-api-annotation'',
                          JObj [(''family'', JStr ''Ops''), (''revision'', JNum 2)])])])])]"

section \<open>Dynamic tools (dynamicTools.ts)\<close>

record ArmContext =
  subscriptionId :: string
  resourceGroup :: string
  location :: string

text \<open>The field \<open>name\<close> of a connection is \<open>connName\<close> and its \<open>status\<close> is
  \<open>connStatus\<close>.\<close>

record ConnectionInfo =
  connName :: string
  apiName :: string
  displayName :: string
  connStatus :: string
  apiId :: string

record DynamicToolContext =
  connection :: ConnectionInfo
  operation :: ParsedOperation

text \<open>
  The module state is the two maps \<open>schemaCache\<close> and \<open>toolRegistry\<close>, each a
  \<open>Map\<close> in insertion order. What the module does to its collaborators is recorded
  beside them: the names registered with \<open>server.tool\<close>, the notifications sent through
  \<open>server.server.sendNotification\<close>, the requests passed to \<open>armRequest\<close>, and the lines
  given to the logger. The registrar and the notification channel are the external
  contracts of the specification; they accept what they are given.
\<close>

record ArmCall =
  callMethod :: string
  callPath :: string
  callQuery :: "(string \<times> string) list"
  callBody :: "json option"

datatype log_entry =
    LogDebug string
  | LogInfo string
  | LogWarn string
  | LogError string js_error

record ServerState =
  schemaCache :: "(string \<times> json) list"
  toolRegistry :: "(string \<times> DynamicToolContext) list"
  serverTools :: "string list"
  notifications :: "string list"
  armCalls :: "ArmCall list"
  logs :: "log_entry list"

definition initialState :: ServerState where
  "initialState =
     \<lparr>schemaCache = [], toolRegistry = [], serverTools = [], notifications = [],
      armCalls = [], logs = []\<rparr>"

text \<open>
  \<open>armRequest\<close> is the pipeline of the first part; here a call of it is an interaction
  with ARM whose outcome the environment decides. The environment gives the outcome of the
  n-th call of \<open>armRequest\<close> made by the process: a thrown error or the decoded response.
\<close>

type_synonym arm_env = "nat \<Rightarrow> arm_error + json"

definition callArm :: "arm_env \<Rightarrow> ArmCall \<Rightarrow> ServerState \<Rightarrow> (js_error + json) \<times> ServerState" where
  "callArm env call s =
     ((case env (length (armCalls s)) of Inl e \<Rightarrow> Inl (ArmFailure e) | Inr v \<Rightarrow> Inr v),
      s\<lparr>armCalls := armCalls s @ [call]\<rparr>)"

definition logLine :: "log_entry \<Rightarrow> ServerState \<Rightarrow> ServerState" where
  "logLine l s = s\<lparr>logs := logs s @ [l]\<rparr>"

text \<open>
  \<^verbatim>\<open>
  export function clearSchemaCache(): void { schemaCache.clear(); }
  export function clearToolRegistry(): void { toolRegistry.clear(); }
  \<close>
\<close>

definition clearSchemaCache :: "ServerState \<Rightarrow> ServerState" where
  "clearSchemaCache s = s\<lparr>schemaCache := []\<rparr>"


text \<open>
  \<^verbatim>\<open>
  export async function fetchApiSchema(apiName, armContext, token, userAgent) {
    if (schemaCache.has(apiName)) { return schemaCache.get(apiName)!; }
    const path = `/subscriptions/${armContext.subscriptionId}/providers/Microsoft.Web/locations/${armContext.location}/managedApis/${apiName}`;
    logger.debug(`Fetching API schema: GET ${path}?api-version=2016-06-01&export=true`);
    const result = await armRequest<any>("GET", path, token, {
      query: { export: "true" }, userAgent });
    const swagger = result ?? null;
    if (swagger) {
      schemaCache.set(apiName, swagger);
    } else {
      logger.warn(`No embedded swagger in response for ${apiName}`, {...});
    }
    return swagger;
  }
  \<close>
\<close>

definition managedApiPath :: "ArmContext \<Rightarrow> string \<Rightarrow> string" where
  "managedApiPath ctx api =
     ''/subscriptions/'' @ subscriptionId ctx @ ''/providers/Microsoft.Web/locations/''
       @ location ctx @ ''/managedApis/'' @ api"

definition fetchApiSchema ::
  "arm_env \<Rightarrow> string \<Rightarrow> ArmContext \<Rightarrow> ServerState \<Rightarrow> (js_error + json) \<times> ServerState" where
  "fetchApiSchema env api ctx s =
     (case map_of (schemaCache s) api of
        Some cached \<Rightarrow> (Inr cached, s)
      | None \<Rightarrow>
          (let p = managedApiPath ctx api;
               s1 = logLine (LogDebug (''Fetching API schema: GET '' @ p
                                        @ ''?api-version=2016-06-01&export=true'')) s;
               (res, s2) = callArm env \<lparr>callMethod = ''GET'', callPath = p,
                                          callQuery = [(''export'', ''true'')], callBody = None\<rparr> s1
           in case res of
                Inl e \<Rightarrow> (Inl e, s2)
              | Inr result \<Rightarrow>
                  (let swagger = result
                   in if truthy swagger
                      then (Inr swagger, s2\<lparr>schemaCache := AList.update api swagger (schemaCache s2)\<rparr>)
                      else (Inr swagger,
                            logLine (LogWarn (''No embedded swagger in response for '' @ api)) s2))))"

text \<open>
  \<^verbatim>\<open>
  function extractConnectionInfo(c: any): ConnectionInfo {
    return {
      name: c.name,
      apiName: c.properties.api.name,
      displayName: c.properties.displayName,
      status: c.properties.overallStatus ?? "Unknown",
      apiId: c.properties.api.id,
    };
  }
  \<close>
\<close>

definition extractConnectionInfo :: "json \<Rightarrow> js_error + ConnectionInfo" where
  "extractConnectionInfo c =
     (if c = JNull then Inl TypeError
      else case getProp c ''properties'' of
             None \<Rightarrow> Inl TypeError
           | Some props \<Rightarrow>
               if props = JNull then Inl TypeError
               else (case getProp props ''api'' of
                       None \<Rightarrow> Inl TypeError
                     | Some api \<Rightarrow>
                         if api = JNull then Inl TypeError
                         else Inr \<lparr>connName = asString (getProp c ''name''),
                                   apiName = asString (getProp api ''name''),
                                   displayName = asString (getProp props ''displayName''),
                                   connStatus = orDefault (getProp props ''overallStatus'') ''Unknown'',
                                   apiId = asString (getProp api ''id'')\<rparr>))"

text \<open>
  \<^verbatim>\<open>
  function registerOps(server, conn, ops, tokenProvider, armContext, userAgentProvider) {
    let registered = 0;
    let skipped = 0;
    for (const op of ops) {
      const toolName = buildToolName(conn.apiName, op.operationId);
      if (toolRegistry.has(toolName)) { skipped++; continue; }
      const description = buildToolDescription(conn, op);
      const zodSchema = generateZodSchema(op);
      server.tool(toolName, description, zodSchema, async (params) => {...});
      toolRegistry.set(toolName, { connection: conn, operation: op });
      registered++;
    }
    return { registered, skipped };
  }
  \<close>
  The description and the schema are values computed from \<open>conn\<close> and \<open>op\<close> and handed
  to the registrar; of the call of \<open>server.tool\<close> the name is recorded.
\<close>

record Stats =
  registered :: nat
  skipped :: nat

record Tally =
  tallyRegistered :: nat
  tallySkipped :: nat
  tallyErrors :: nat

fun registerOps ::
  "ConnectionInfo \<Rightarrow> ParsedOperation list \<Rightarrow> Stats \<Rightarrow> ServerState \<Rightarrow> Stats \<times> ServerState" where
  "registerOps conn [] stats s = (stats, s)"
| "registerOps conn (op # ops) stats s =
     (let toolName = buildToolName (apiName conn) (operationId op)
      in if map_of (toolRegistry s) toolName \<noteq> None
         then registerOps conn ops (stats\<lparr>skipped := skipped stats + 1\<rparr>) s
         else registerOps conn ops (stats\<lparr>registered := registered stats + 1\<rparr>)
                (s\<lparr>serverTools := serverTools s @ [toolName],
                   toolRegistry := AList.update toolName
                                     \<lparr>connection = conn, operation = op\<rparr> (toolRegistry s)\<rparr>))"

text \<open>
  \<open>filterOperations\<close> on a freshly parsed array: every element is an object of its own, so
  the references are the positions.
\<close>

definition filterParsed :: "ParsedOperation list \<Rightarrow> ParsedOperation list" where
  "filterParsed allOps =
     map (\<lambda>r. allOps ! r) (filterOperations (\<lambda>r. allOps ! r) [0 ..< length allOps])"

text \<open>
  \<^verbatim>\<open>
  export async function registerDynamicTools(server, tokenProvider, armContext, userAgentProvider) {
    let registered = 0; let skipped = 0; let errors = 0;
    const token = await tokenProvider();
    const connPath = `/subscriptions/${armContext.subscriptionId}/resourceGroups/${armContext.resourceGroup}/providers/Microsoft.Web/connections`;
    const connResult = await armRequest<{ value: any[] }>("GET", connPath, token, {...});
    const connections = connResult.value ?? [];
    for (const c of connections) {
      try {
        const conn = extractConnectionInfo(c);
        const swagger = await fetchApiSchema(conn.apiName, armContext, token, userAgentProvider());
        if (!swagger) {
          logger.warn(`No swagger for ${conn.apiName}, skipping`);
          continue;
        }
        const allOps = parseOpenApiSpec(swagger as any, conn.apiName);
        const ops = filterOperations(allOps);
        const stats = registerOps(server, conn, ops, tokenProvider, armContext, userAgentProvider);
        registered += stats.registered;
        skipped += stats.skipped;
      } catch (err) {
        const msg = err instanceof Error ? err.message : String(err);
        logger.error(`Error registering tools for connection ${c.name}: ${msg}`);
        errors++;
      }
    }
    logger.info(`Dynamic tools: ${registered} registered, ${skipped} skipped, ${errors} errors`);
    return { registered, skipped, errors };
  }
  \<close>
  The token provider is called once; its outcome (a token or a rejection) is an argument.
  The body of the \<open>try\<close> block for one connection gives the statistics of
  \<open>registerOps\<close>, nothing when the connection is skipped, or the exception caught.
  In the \<open>catch\<close> block \<open>c.name\<close> is read: when \<open>c\<close> is \<open>null\<close> that read throws, out of
  the function.
\<close>

definition connectionsPath :: "ArmContext \<Rightarrow> string" where
  "connectionsPath ctx =
     ''/subscriptions/'' @ subscriptionId ctx @ ''/resourceGroups/'' @ resourceGroup ctx
       @ ''/providers/Microsoft.Web/connections''"

definition compileAndRegister ::
  "ConnectionInfo \<Rightarrow> json \<Rightarrow> ServerState \<Rightarrow> (js_error + Stats) \<times> ServerState" where
  \<comment> \<open>\<open>parseOpenApiSpec\<close>, \<open>filterOperations\<close>, \<open>registerOps\<close>\<close>
  "compileAndRegister conn swagger s =
     (case parseOpenApiSpec swagger (apiName conn) of
        Inl e \<Rightarrow> (Inl e, s)
      | Inr allOps \<Rightarrow>
          (let s1 = logLine (LogInfo (''Parsed '' @ showNat (length allOps)
                                       @ '' operations from '' @ apiName conn)) s;
               ops = filterParsed allOps;
               (stats, s2) = registerOps conn ops \<lparr>registered = 0, skipped = 0\<rparr> s1
           in (Inr stats, s2)))"

definition tryConnection ::
  "arm_env \<Rightarrow> ArmContext \<Rightarrow> json \<Rightarrow> ServerState \<Rightarrow> (js_error + Stats option) \<times> ServerState" where
  "tryConnection env ctx c s =
     (case extractConnectionInfo c of
        Inl e \<Rightarrow> (Inl e, s)
      | Inr conn \<Rightarrow>
          (let (res, s1) = fetchApiSchema env (apiName conn) ctx s
           in case res of
                Inl e \<Rightarrow> (Inl e, s1)
              | Inr swagger \<Rightarrow>
                  if \<not> truthy swagger
                  then (Inr None,
                        logLine (LogWarn (''No swagger for '' @ apiName conn @ '', skipping'')) s1)
                  else (case compileAndRegister conn swagger s1 of
                          (Inl e, s2) \<Rightarrow> (Inl e, s2)
                        | (Inr stats, s2) \<Rightarrow> (Inr (Some stats), s2))))"

fun scanConnections ::
  "arm_env \<Rightarrow> ArmContext \<Rightarrow> json list \<Rightarrow> Tally \<Rightarrow> ServerState \<Rightarrow> (js_error + Tally) \<times> ServerState" where
  "scanConnections env ctx [] tally s = (Inr tally, s)"
| "scanConnections env ctx (c # cs) tally s =
     (case tryConnection env ctx c s of
        (Inr (Some stats), s1) \<Rightarrow>
          scanConnections env ctx cs
            (tally\<lparr>tallyRegistered := tallyRegistered tally + registered stats,
                   tallySkipped := tallySkipped tally + skipped stats\<rparr>) s1
      | (Inr None, s1) \<Rightarrow> scanConnections env ctx cs tally s1
      | (Inl err, s1) \<Rightarrow>
          if c = JNull then (Inl TypeError, s1)
          else scanConnections env ctx cs (tally\<lparr>tallyErrors := tallyErrors tally + 1\<rparr>)
                 (logLine (LogError (''Error registering tools for connection ''
                                      @ asString (getProp c ''name'') @ '': '') err) s1))"

definition registerDynamicTools ::
  "arm_env \<Rightarrow> js_error + string \<Rightarrow> ArmContext \<Rightarrow> ServerState
   \<Rightarrow> (js_error + Tally) \<times> ServerState" where
  "registerDynamicTools env tokenProvider ctx s =
     (case tokenProvider of
        Inl e \<Rightarrow> (Inl e, s)
      | Inr token \<Rightarrow>
          (let (res, s1) = callArm env \<lparr>callMethod = ''GET'', callPath = connectionsPath ctx,
                                          callQuery = [], callBody = None\<rparr> s
           in case res of
                Inl e \<Rightarrow> (Inl e, s1)
              | Inr connResult \<Rightarrow>
                  if connResult = JNull then (Inl TypeError, s1)
                  else (case iterateOrEmpty (getProp connResult ''value'') of
                          Inl e \<Rightarrow> (Inl e, s1)
                        | Inr connections \<Rightarrow>
                            (case scanConnections env ctx connections
                                    \<lparr>tallyRegistered = 0, tallySkipped = 0, tallyErrors = 0\<rparr> s1 of
                               (Inl e, s2) \<Rightarrow> (Inl e, s2)
                             | (Inr tally, s2) \<Rightarrow>
                                 (Inr tally,
                                  logLine (LogInfo (''Dynamic tools: ''
                                     @ showNat (tallyRegistered tally) @ '' registered, ''
                                     @ showNat (tallySkipped tally) @ '' skipped, ''
                                     @ showNat (tallyErrors tally) @ '' errors'')) s2)))))"

text \<open>
  \<^verbatim>\<open>
  export async function registerToolsForConnection(server, connectionResponse, tokenProvider, armContext, userAgentProvider) {
    try {
      const conn = extractConnectionInfo(connectionResponse);
      const prefix = `${conn.apiName}_`;
      for (const key of toolRegistry.keys()) {
        if (key.startsWith(prefix)) {
          logger.info(`Tools for ${conn.apiName} already registered, skipping`);
          return { registered: 0, skipped: 0, errors: 0 };
        }
      }
      const token = await tokenProvider();
      const swagger = await fetchApiSchema(conn.apiName, armContext, token, userAgentProvider());
      if (!swagger) {
        logger.warn(`No swagger for ${conn.apiName}`);
        return { registered: 0, skipped: 0, errors: 0 };
      }
      const allOps = parseOpenApiSpec(swagger as any, conn.apiName);
      const ops = filterOperations(allOps);
      const stats = registerOps(server, conn, ops, tokenProvider, armContext, userAgentProvider);
      if (stats.registered > 0) {
        (server as any).server.sendNotification("notifications/tools/list_changed");
      }
      return { registered: stats.registered, skipped: stats.skipped, errors: 0 };
    } catch (err) {
      const msg = err instanceof Error ? err.message : String(err);
      logger.error(`Error registering tools for connection: ${msg}`);
      return { registered: 0, skipped: 0, errors: 1 };
    }
  }
  \<close>
\<close>

definition zeroTally :: Tally where
  "zeroTally = \<lparr>tallyRegistered = 0, tallySkipped = 0, tallyErrors = 0\<rparr>"

definition hasPrefix :: "string \<Rightarrow> ServerState \<Rightarrow> bool" where
  \<comment> \<open>some key of the registry starts with \<open><apiName>_\<close>\<close>
  "hasPrefix api s = list_ex (\<lambda>key. startsWith key (api @ ''_'')) (map fst (toolRegistry s))"

definition incrementalBody ::
  "arm_env \<Rightarrow> js_error + string \<Rightarrow> ArmContext \<Rightarrow> json \<Rightarrow> ServerState
   \<Rightarrow> (js_error + Tally) \<times> ServerState" where
  \<comment> \<open>the \<open>try\<close> block\<close>
  "incrementalBody env tokenProvider ctx connectionResponse s =
     (case extractConnectionInfo connectionResponse of
        Inl e \<Rightarrow> (Inl e, s)
      | Inr conn \<Rightarrow>
          if hasPrefix (apiName conn) s
          then (Inr zeroTally,
                logLine (LogInfo (''Tools for '' @ apiName conn @ '' already registered, skipping'')) s)
          else (case tokenProvider of
                  Inl e \<Rightarrow> (Inl e, s)
                | Inr token \<Rightarrow>
                    (let (res, s1) = fetchApiSchema env (apiName conn) ctx s
                     in case res of
                          Inl e \<Rightarrow> (Inl e, s1)
                        | Inr swagger \<Rightarrow>
                            if \<not> truthy swagger
                            then (Inr zeroTally, logLine (LogWarn (''No swagger for '' @ apiName conn)) s1)
                            else (case compileAndRegister conn swagger s1 of
                                    (Inl e, s2) \<Rightarrow> (Inl e, s2)
                                  | (Inr stats, s2) \<Rightarrow>
                                      (Inr \<lparr>tallyRegistered = registered stats,
                                            tallySkipped = skipped stats, tallyErrors = 0\<rparr>,
                                       if registered stats > 0
                                       then s2\<lparr>notifications := notifications s2
                                                  @ [''notifications/tools/list_changed'']\<rparr>
                                       else s2)))))"

definition registerToolsForConnection ::
  "arm_env \<Rightarrow> js_error + string \<Rightarrow> ArmContext \<Rightarrow> json \<Rightarrow> ServerState \<Rightarrow> Tally \<times> ServerState" where
  "registerToolsForConnection env tokenProvider ctx connectionResponse s =
     (case incrementalBody env tokenProvider ctx connectionResponse s of
        (Inr tally, s1) \<Rightarrow> (tally, s1)
      | (Inl err, s1) \<Rightarrow>
          (\<lparr>tallyRegistered = 0, tallySkipped = 0, tallyErrors = 1\<rparr>,
           logLine (LogError ''Error registering tools for connection: '' err) s1))"

section \<open>Meta tools (metaTools.ts)\<close>

text \<open>
  \<^verbatim>\<open>
    async () => {
      try {
        clearSchemaCache();
        const result = await registerDynamicTools(server, tokenProvider, armContext, userAgentProvider);
        return { content: [{ type: "text", text: `Refresh complete. Registered: ...` }] };
      } catch (error) {
        const msg = error instanceof Error ? error.message : "Unknown error";
        logger.error(`Error refreshing tools: ${msg}`);
        return { content: [{ type: "text", text: `Error refreshing tools: ${msg}` }], isError: true };
      }
    }
  \<close>
  The handler's reply is built from the tally or from the error caught.
\<close>

datatype refresh_reply = RefreshComplete Tally | RefreshFailed js_error

definition refresh_tools ::
  "arm_env \<Rightarrow> js_error + string \<Rightarrow> ArmContext \<Rightarrow> ServerState \<Rightarrow> refresh_reply \<times> ServerState" where
  "refresh_tools env tokenProvider ctx s =
     (case registerDynamicTools env tokenProvider ctx (clearSchemaCache s) of
        (Inr result, s1) \<Rightarrow> (RefreshComplete result, s1)
      | (Inl err, s1) \<Rightarrow> (RefreshFailed err, logLine (LogError ''Error refreshing tools: '' err) s1))"


text \<open>Inputs of the tests of \<open>dynamicTools.ts\<close>.\<close>

definition testContext :: ArmContext where
  "testContext = \<lparr>subscriptionId = ''sub-123'', resourceGroup = ''rg-test'', location = ''westus''\<rparr>"

definition makeArmConnectionResponse :: "string \<Rightarrow> string \<Rightarrow> json" where
  "makeArmConnectionResponse nm api =
     JObj [(''name'', JStr nm),
           (''properties'', JObj
              [(''displayName'', JStr (api @ '' Connection'')),
               (''overallStatus'', JStr ''Connected''),
               (''api'', JObj
                  [(''name'', JStr api),
                   (''id'', JStr (''/subscriptions/sub-123/providers/Microsoft.Web/locations/westus/managedApis/'' @ api))])])]"

definition twoConnectionsEnv :: arm_env where
  \<comment> \<open>the connection list with two connections, then the schema of each\<close>
  "twoConnectionsEnv n =
     (if n = 0 then Inr (JObj [(''value'', JArr [makeArmConnectionResponse ''office365'' ''office365'',
                                                 makeArmConnectionResponse ''teams-conn'' ''teams''])])
      else Inr testSwagger)"

text \<open>
  Two predicates on the registry. An entry is well named when its key is the tool name
  built from its stored connection and operation. A later state extends the registry of
  an earlier one when the earlier entries are all there, unchanged and in place, followed
  by well-named entries.
\<close>

definition wellNamed :: "string \<times> DynamicToolContext \<Rightarrow> bool" where
  "wellNamed entry =
     (case entry of (k, v) \<Rightarrow>
        k = buildToolName (apiName (connection v)) (operationId (operation v)))"


definition extendsRegistry :: "ServerState \<Rightarrow> ServerState \<Rightarrow> bool" where
  "extendsRegistry s s' =
     (take (length (toolRegistry s)) (toolRegistry s') = toolRegistry s
      \<and> list_all wellNamed (drop (length (toolRegistry s)) (toolRegistry s')))"

text \<open>
  The notion of claim C1, in the words of the specification and of the design notes of
  the repository (\<open>result.properties.swagger\<close>): the Swagger document embedded in the
  managed-API resource that ARM returns.
\<close>

definition embeddedSwagger :: "json \<Rightarrow> json option" where
  "embeddedSwagger result = definedOpt (getPropOpt (getProp result ''properties'') ''swagger'')"

text \<open>Concrete responses, environments and states used below.\<close>

definition envelopeResponse :: json where
  \<comment> \<open>a managed-API resource with an embedded Swagger document\<close>
  "envelopeResponse = JObj [(''properties'', JObj [(''swagger'', testSwagger)])]"

definition bareEnvelope :: json where
  \<comment> \<open>a managed-API resource without an embedded Swagger document\<close>
  "bareEnvelope =
     JObj [(''name'', JStr ''office365''),
           (''properties'', JObj [(''apiDefinitionUrl'', JStr ''https://example.test/swagger'')])]"

definition office365Response :: json where
  "office365Response = makeArmConnectionResponse ''office365'' ''office365''"

definition afterIncremental :: ServerState where
  \<comment> \<open>the first incremental registration for \<open>office365\<close>, as in the test\<close>
  "afterIncremental =
     snd (registerToolsForConnection (\<lambda>n. Inr testSwagger) (Inr ''test-token'') testContext
            office365Response initialState)"

definition afterSecondIncremental :: ServerState where
  "afterSecondIncremental =
     snd (registerToolsForConnection (\<lambda>n. Inr testSwagger) (Inr ''test-token'') testContext
            office365Response afterIncremental)"

definition refreshEnv :: arm_env where
  \<comment> \<open>the second call of the process lists two connections; every schema fetch succeeds\<close>
  "refreshEnv n =
     (if n = 1 then Inr (JObj [(''value'', JArr [makeArmConnectionResponse ''office365'' ''office365'',
                                                 makeArmConnectionResponse ''teams-conn'' ''teams''])])
      else Inr testSwagger)"

definition afterRefresh :: ServerState where
  "afterRefresh = snd (refresh_tools refreshEnv (Inr ''test-token'') testContext afterIncremental)"

definition failThenSucceedEnv :: arm_env where
  \<comment> \<open>the first call of \<open>armRequest\<close> fails after its retries, the second succeeds\<close>
  "failThenSucceedEnv n =
     (if n = 0 then Inl (ArmError (JStr ''ServiceUnavailable'') ''busy'' 503)
      else Inr testSwagger)"

definition afterFailedAttempt :: "Tally \<times> ServerState" where
  "afterFailedAttempt =
     registerToolsForConnection failThenSucceedEnv (Inr ''test-token'') testContext
       office365Response initialState"

definition afterRetry :: "Tally \<times> ServerState" where
  "afterRetry =
     registerToolsForConnection failThenSucceedEnv (Inr ''test-token'') testContext
       office365Response (snd afterFailedAttempt)"

definition nullSchemaEnv :: arm_env where
  \<comment> \<open>the connection list with one connection, then \<open>null\<close> for its managed API\<close>
  "nullSchemaEnv n =
     (if n = 0 then Inr (JObj [(''value'', JArr [makeArmConnectionResponse ''office365'' ''office365''])])
      else Inr JNull)"

section \<open>Input schema (zodGenerator.ts)\<close>

text \<open>
  The schema that \<open>generateZodSchema\<close> hands to the registrar, as data: the kind of value
  a key accepts, its default, whether it is optional, and its description.
  \<^verbatim>\<open>
  function zodForParam(param: ParsedParameter): ZodTypeAny {
    switch (param.type) {
      case "integer": schema = z.number().int(); (default) break;
      case "boolean": schema = z.boolean(); (default) break;
      case "array": schema = z.array(z.string()); break;
      default:
        if (param.enum && param.enum.length > 0) { schema = z.enum(param.enum); }
        else { schema = z.string(); }
        (default) break;
    }
    if (!param.required) schema = schema.optional();
    if (param.description) schema = schema.describe(param.description);
    return schema;
  }
  \<close>
\<close>

datatype zod_kind =
    ZInt
  | ZNumber
  | ZBoolean
  | ZStringArray
  | ZUnknownArray
  | ZRecord
  | ZEnum "string list"
  | ZString

record ZodSchema =
  zodKind :: zod_kind
  zodDefault :: "json option"
  zodOptional :: bool
  zodDescription :: "string option"

definition enumValues :: "json option \<Rightarrow> string list" where
  \<comment> \<open>the values of \<open>enum\<close> when \<open>enum && enum.length > 0\<close>, else none\<close>
  "enumValues e = (case e of Some (JArr xs) \<Rightarrow> map toStringJS xs | _ \<Rightarrow> [])"

definition zodForParam :: "ParsedParameter \<Rightarrow> ZodSchema" where
  "zodForParam param =
     (let (kind, dflt) =
            (if paramType param = ''integer'' then (ZInt, paramDefault param)
             else if paramType param = ''boolean'' then (ZBoolean, paramDefault param)
             else if paramType param = ''array'' then (ZStringArray, None)
             else if enumValues (paramEnum param) \<noteq> []
                  then (ZEnum (enumValues (paramEnum param)), paramDefault param)
             else (ZString, paramDefault param))
      in \<lparr>zodKind = kind, zodDefault = dflt, zodOptional = (\<not> paramRequired param),
          zodDescription = (if paramDescription param \<noteq> [] then Some (paramDescription param)
                            else None)\<rparr>)"

text \<open>
  \<^verbatim>\<open>
  function zodForBodyProp(prop: ParsedBodyProperty): ZodTypeAny {
    switch (prop.type) {
      case "integer": case "number": schema = z.number(); break;
      case "boolean": schema = z.boolean(); break;
      case "array": schema = z.array(z.unknown()); break;
      case "object": case "string (JSON)": schema = z.record(z.string(), z.unknown()); break;
      default: (enum or string, with the default) break;
    }
    if (!prop.required) schema = schema.optional();
    if (prop.description) schema = schema.describe(prop.description);
    return schema;
  }
  \<close>
\<close>

definition zodForBodyProp :: "ParsedBodyProperty \<Rightarrow> ZodSchema" where
  "zodForBodyProp prop =
     (let (kind, dflt) =
            (if propType prop = ''integer'' \<or> propType prop = ''number'' then (ZNumber, None)
             else if propType prop = ''boolean'' then (ZBoolean, None)
             else if propType prop = ''array'' then (ZUnknownArray, None)
             else if propType prop = ''object'' \<or> propType prop = ''string (JSON)''
                  then (ZRecord, None)
             else if enumValues (propEnum prop) \<noteq> []
                  then (ZEnum (enumValues (propEnum prop)), propDefault prop)
             else (ZString, propDefault prop))
      in \<lparr>zodKind = kind, zodDefault = dflt, zodOptional = (\<not> propRequired prop),
          zodDescription = (if propDescription prop \<noteq> [] then Some (propDescription prop)
                            else None)\<rparr>)"

text \<open>
  \<^verbatim>\<open>
  export function generateZodSchema(op: ParsedOperation): Record<string, ZodTypeAny> {
    const result: Record<string, ZodTypeAny> = {};
    for (const param of op.parameters) {
      if (param.name === "connectionId") continue;
      const key = sanitizeKey(param.name);
      result[key] = zodForParam(param);
    }
    if (op.requestBody) {
      for (const [name, prop] of Object.entries(op.requestBody.properties)) {
        if (prop.format === "binary") continue;
        const sanitized = sanitizeKey(name);
        const key = sanitized in result ? `body_${sanitized}` : sanitized;
        result[key] = zodForBodyProp(prop);
      }
    }
    return result;
  }
  \<close>
  The result is an object used as a map from its own keys, in insertion order.
\<close>

fun schemaOfParams :: "ParsedParameter list \<Rightarrow> (string \<times> ZodSchema) list \<Rightarrow> (string \<times> ZodSchema) list" where
  "schemaOfParams [] result = result"
| "schemaOfParams (param # rest) result =
     (if paramName param = ''connectionId'' then schemaOfParams rest result
      else schemaOfParams rest (AList.update (sanitizeKey (paramName param)) (zodForParam param) result))"

fun schemaOfBody ::
  "(string \<times> ParsedBodyProperty) list \<Rightarrow> (string \<times> ZodSchema) list \<Rightarrow> (string \<times> ZodSchema) list" where
  "schemaOfBody [] result = result"
| "schemaOfBody ((name, prop) # rest) result =
     (if propFormat prop = Some ''binary'' then schemaOfBody rest result
      else (let sanitized = sanitizeKey name;
                key = (if map_of result sanitized \<noteq> None then ''body_'' @ sanitized else sanitized)
            in schemaOfBody rest (AList.update key (zodForBodyProp prop) result)))"

definition generateZodSchema :: "ParsedOperation \<Rightarrow> (string \<times> ZodSchema) list" where
  "generateZodSchema op =
     (let result = schemaOfParams (parameters op) []
      in case requestBody op of
           Some b \<Rightarrow> schemaOfBody (properties b) result
         | None \<Rightarrow> result)"

text \<open>
  The registrar validates the client's input against the schema before it calls the
  handler; that is the contract of the specification, outside the repository. A params
  map is validated when its keys are distinct keys of the schema, each value is of the
  kind of its key, and every key that is not optional has a value.
\<close>

fun conforms :: "zod_kind \<Rightarrow> json \<Rightarrow> bool" where
  "conforms ZInt v = (case v of JNum n \<Rightarrow> True | _ \<Rightarrow> False)"
| "conforms ZNumber v = (case v of JNum n \<Rightarrow> True | _ \<Rightarrow> False)"
| "conforms ZBoolean v = (case v of JBool b \<Rightarrow> True | _ \<Rightarrow> False)"
| "conforms ZStringArray v =
     (case v of JArr xs \<Rightarrow> list_all (\<lambda>x. case x of JStr s \<Rightarrow> True | _ \<Rightarrow> False) xs
              | _ \<Rightarrow> False)"
| "conforms ZUnknownArray v = (case v of JArr xs \<Rightarrow> True | _ \<Rightarrow> False)"
| "conforms ZRecord v = (case v of JObj kvs \<Rightarrow> True | _ \<Rightarrow> False)"
| "conforms (ZEnum vs) v = (case v of JStr s \<Rightarrow> List.member vs s | _ \<Rightarrow> False)"
| "conforms ZString v = (case v of JStr s \<Rightarrow> True | _ \<Rightarrow> False)"

definition validatedParams :: "(string \<times> ZodSchema) list \<Rightarrow> (string \<times> json) list \<Rightarrow> bool" where
  "validatedParams schema params =
     (distinct (map fst params)
      \<and> list_all (\<lambda>(k, v). case map_of schema k of
                              Some sch \<Rightarrow> conforms (zodKind sch) v
                            | None \<Rightarrow> False) params
      \<and> list_all (\<lambda>(k, sch). zodOptional sch \<or> map_of params k \<noteq> None) schema)"

section \<open>Invocation (dynamicTools.ts)\<close>

text \<open>
  \<open>s.replace(pattern, replacement)\<close> with a string pattern replaces the first occurrence
  of the pattern. The replacement is a template: \<open>$$\<close> stands for a dollar sign, \<open>$&\<close> for
  the matched text, \<open>$`\<close> for the text before the match and \<open>$'\<close> for the text after it;
  a string pattern has no captures, so every other \<open>$\<close> stands for itself.
\<close>

fun expandReplacement :: "string \<Rightarrow> string \<Rightarrow> string \<Rightarrow> string \<Rightarrow> string" where
  "expandReplacement matched pre post (a # c # rest) =
     (if a = CHR ''$'' \<and> c = CHR ''$'' then CHR ''$'' # expandReplacement matched pre post rest
      else if a = CHR ''$'' \<and> c = CHR ''&'' then matched @ expandReplacement matched pre post rest
      else if a = CHR ''$'' \<and> c = CHR 0x60 then pre @ expandReplacement matched pre post rest
      else if a = CHR ''$'' \<and> c = CHR 0x27 then post @ expandReplacement matched pre post rest
      else a # expandReplacement matched pre post (c # rest))"
| "expandReplacement matched pre post cs = cs"

fun splitAtFirst :: "string \<Rightarrow> string \<Rightarrow> (string \<times> string) option" where
  \<comment> \<open>the text before and after the first occurrence of the pattern\<close>
  "splitAtFirst needle [] = (if needle = [] then Some ([], []) else None)"
| "splitAtFirst needle (c # cs) =
     (if startsWith (c # cs) needle then Some ([], drop (length needle) (c # cs))
      else (case splitAtFirst needle cs of
              Some (pre, post) \<Rightarrow> Some (c # pre, post)
            | None \<Rightarrow> None))"

definition replaceJS :: "string \<Rightarrow> string \<Rightarrow> string \<Rightarrow> string" where
  \<comment> \<open>\<open>s.replace(needle, replacement)\<close>\<close>
  "replaceJS s needle replacement =
     (case splitAtFirst needle s of
        Some (pre, post) \<Rightarrow> pre @ expandReplacement needle pre post replacement @ post
      | None \<Rightarrow> s)"

definition stripConnectionId :: "string \<Rightarrow> string" where
  \<comment> \<open>\<open>op.path.replace(/^\/{connectionId}/, "")\<close>: the braces are literal\<close>
  "stripConnectionId p =
     (if startsWith p ''/{connectionId}'' then drop (length ''/{connectionId}'') p else p)"

definition toUpperCase :: "string \<Rightarrow> string" where
  "toUpperCase s = map toUpperCaseUnit s"

text \<open>
  \<^verbatim>\<open>
    let invokePath = op.path.replace(/^\/{connectionId}/, "");
    const queries: Record<string, string> = {};
    for (const param of op.parameters) {
      if (param.name === "connectionId") continue;
      const sanitized = sanitizeKey(param.name);
      const val = params[sanitized];
      if (val === undefined) continue;
      if (param.in === "path") {
        invokePath = invokePath.replace(`{${param.name}}`, String(val));
      } else if (param.in === "query") {
        queries[param.name] = String(val);
      }
    }
  \<close>
\<close>

fun collectParams ::
  "ParsedParameter list \<Rightarrow> (string \<times> json) list \<Rightarrow> string \<Rightarrow> (string \<times> string) list
   \<Rightarrow> string \<times> (string \<times> string) list" where
  "collectParams [] params invokePath queries = (invokePath, queries)"
| "collectParams (param # rest) params invokePath queries =
     (if paramName param = ''connectionId'' then collectParams rest params invokePath queries
      else case map_of params (sanitizeKey (paramName param)) of
             None \<Rightarrow> collectParams rest params invokePath queries
           | Some val \<Rightarrow>
               if paramIn param = ''path''
               then collectParams rest params
                      (replaceJS invokePath (''{'' @ paramName param @ ''}'') (toStringJS val)) queries
               else if paramIn param = ''query''
               then collectParams rest params invokePath
                      (AList.update (paramName param) (toStringJS val) queries)
               else collectParams rest params invokePath queries)"

text \<open>
  \<^verbatim>\<open>
    let body: Record<string, unknown> | undefined;
    if (op.requestBody) {
      body = {};
      for (const [name, prop] of Object.entries(op.requestBody.properties)) {
        const sanitized = sanitizeKey(name);
        const val = params[sanitized] ?? params[`body_${sanitized}`];
        if (val === undefined) continue;
        if ((prop.type === "object" || prop.type === "string (JSON)") && typeof val === "string") {
          try { body[name] = JSON.parse(val); } catch { body[name] = val; }
        } else {
          body[name] = val;
        }
      }
    }
  \<close>
  \<open>JSON.parse\<close> is the built-in of the language; it is an argument of the model, with
  \<^term>\<open>None\<close> where it throws.
\<close>

definition lookupBodyValue :: "(string \<times> json) list \<Rightarrow> string \<Rightarrow> json option" where
  \<comment> \<open>\<open>params[sanitized] ?? params[`body_${sanitized}`]\<close>\<close>
  "lookupBodyValue params sanitized =
     (case map_of params sanitized of
        None \<Rightarrow> map_of params (''body_'' @ sanitized)
      | Some JNull \<Rightarrow> map_of params (''body_'' @ sanitized)
      | Some v \<Rightarrow> Some v)"

fun collectBody ::
  "(string \<Rightarrow> json option) \<Rightarrow> (string \<times> ParsedBodyProperty) list \<Rightarrow> (string \<times> json) list
   \<Rightarrow> (string \<times> json) list \<Rightarrow> (string \<times> json) list" where
  "collectBody jsonParse [] params bodyObj = bodyObj"
| "collectBody jsonParse ((name, prop) # rest) params bodyObj =
     (case lookupBodyValue params (sanitizeKey name) of
        None \<Rightarrow> collectBody jsonParse rest params bodyObj
      | Some val \<Rightarrow>
          (case val of
             JStr str \<Rightarrow>
               if propType prop = ''object'' \<or> propType prop = ''string (JSON)''
               then collectBody jsonParse rest params
                      (AList.update name (case jsonParse str of Some parsed \<Rightarrow> parsed
                                                              | None \<Rightarrow> val) bodyObj)
               else collectBody jsonParse rest params (AList.update name val bodyObj)
           | _ \<Rightarrow> collectBody jsonParse rest params (AList.update name val bodyObj)))"

text \<open>
  \<^verbatim>\<open>
    const request: Record<string, unknown> = {
      method: op.method.toUpperCase(),
      path: invokePath,
    };
    if (body && Object.keys(body).length > 0) {
      request.headers = { "Content-Type": "application/json" };
      request.body = body;
    }
    if (Object.keys(queries).length > 0) { request.queries = queries; }
  \<close>
\<close>

record InvokeRequest =
  reqMethod :: string
  reqPath :: string
  reqHeaders :: "(string \<times> string) list option"
  reqBody :: "(string \<times> json) list option"
  reqQueries :: "(string \<times> string) list option"

definition dynamicInvokeRequest ::
  "(string \<Rightarrow> json option) \<Rightarrow> ParsedOperation \<Rightarrow> (string \<times> json) list \<Rightarrow> InvokeRequest" where
  "dynamicInvokeRequest jsonParse op params =
     (let (invokePath, queries) =
            collectParams (parameters op) params (stripConnectionId (path op)) [];
          bodyObj = (case requestBody op of
                    Some b \<Rightarrow> Some (collectBody jsonParse (properties b) params [])
                  | None \<Rightarrow> None);
          withBody = (case bodyObj of Some kvs \<Rightarrow> kvs \<noteq> [] | None \<Rightarrow> False)
      in \<lparr>reqMethod = toUpperCase (httpMethod op),
          reqPath = invokePath,
          reqHeaders = (if withBody then Some [(''Content-Type'', ''application/json'')] else None),
          reqBody = (if withBody then bodyObj else None),
          reqQueries = (if queries \<noteq> [] then Some queries else None)\<rparr>)"

definition requestJson :: "InvokeRequest \<Rightarrow> json" where
  \<comment> \<open>the object \<open>request\<close> as it is encoded into the body of the POST\<close>
  "requestJson r =
     JObj ([(''method'', JStr (reqMethod r)), (''path'', JStr (reqPath r))]
           @ (case reqHeaders r of
                Some hs \<Rightarrow> [(''headers'', JObj (map (\<lambda>(k, v). (k, JStr v)) hs))]
              | None \<Rightarrow> [])
           @ (case reqBody r of Some kvs \<Rightarrow> [(''body'', JObj kvs)] | None \<Rightarrow> [])
           @ (case reqQueries r of
                Some qs \<Rightarrow> [(''queries'', JObj (map (\<lambda>(k, v). (k, JStr v)) qs))]
              | None \<Rightarrow> []))"

text \<open>
  \<^verbatim>\<open>
    const token = await tokenProvider();
    const dynamicPath = `/subscriptions/${armContext.subscriptionId}/resourceGroups/${armContext.resourceGroup}/providers/Microsoft.Web/connections/${conn.name}/dynamicInvoke`;
    ...
    const result = await armRequest<any>("POST", dynamicPath, token, {
      body: { request }, userAgent: userAgentProvider() });
    return { content: [{ type: "text", text: JSON.stringify(result?.response?.body ?? result) }] };
  } catch (error) {
    const msg = error instanceof Error ? error.message : String(error);
    return { content: [{ type: "text", text: `Error invoking ${conn.apiName}/${op.operationId}: ${msg}` }],
             isError: true };
  }
  \<close>
  The reply carries the value that is serialized, or the error caught.
\<close>

datatype tool_reply = ReplyJson json | ReplyError string js_error

definition dynamicInvokePath :: "ArmContext \<Rightarrow> ConnectionInfo \<Rightarrow> string" where
  "dynamicInvokePath ctx conn =
     ''/subscriptions/'' @ subscriptionId ctx @ ''/resourceGroups/'' @ resourceGroup ctx
       @ ''/providers/Microsoft.Web/connections/'' @ connName conn @ ''/dynamicInvoke''"

definition invokeDynamicTool ::
  "arm_env \<Rightarrow> (string \<Rightarrow> json option) \<Rightarrow> js_error + string \<Rightarrow> ArmContext \<Rightarrow> ConnectionInfo
   \<Rightarrow> ParsedOperation \<Rightarrow> (string \<times> json) list \<Rightarrow> ServerState \<Rightarrow> tool_reply \<times> ServerState" where
  "invokeDynamicTool env jsonParse tokenProvider ctx conn op params s =
     (let request = dynamicInvokeRequest jsonParse op params;
          prefix = ''Error invoking '' @ apiName conn @ ''/'' @ operationId op @ '': ''
      in case tokenProvider of
           Inl e \<Rightarrow> (ReplyError prefix e, s)
         | Inr token \<Rightarrow>
             (let (res, s1) = callArm env \<lparr>callMethod = ''POST'', callPath = dynamicInvokePath ctx conn,
                                            callQuery = [],
                                            callBody = Some (JObj [(''request'', requestJson request)])\<rparr> s
              in case res of
                   Inl e \<Rightarrow> (ReplyError prefix e, s1)
                 | Inr result \<Rightarrow>
                     (ReplyJson (nullishOr (getPropOpt (getProp result ''response'') ''body'') result),
                      s1)))"

text \<open>
  The invocation path in the words of the specification: the path of the operation
  without the leading \<open>/{connectionId}\<close>, where for every path parameter with a value
  under its sanitized key the placeholder \<open>{name}\<close> is replaced by the string form of the
  value.
\<close>

fun substitutePlaceholders :: "ParsedParameter list \<Rightarrow> (string \<times> json) list \<Rightarrow> string \<Rightarrow> string" where
  "substitutePlaceholders [] params p = p"
| "substitutePlaceholders (param # rest) params p =
     (if paramName param \<noteq> ''connectionId'' \<and> paramIn param = ''path'' then
        (case map_of params (sanitizeKey (paramName param)) of
           Some val \<Rightarrow>
             substitutePlaceholders rest params
               (replaceFirstLit (''{'' @ paramName param @ ''}'') (toStringJS val) p)
         | None \<Rightarrow> substitutePlaceholders rest params p)
      else substitutePlaceholders rest params p)"

definition specInvocationPath :: "ParsedOperation \<Rightarrow> (string \<times> json) list \<Rightarrow> string" where
  "specInvocationPath op params =
     substitutePlaceholders (parameters op) params (stripConnectionId (path op))"

text \<open>Operations of the tests of \<open>invokeDynamicTool\<close>.\<close>

definition pathParam :: "string \<Rightarrow> ParsedParameter" where
  "pathParam n =
     \<lparr>paramName = n, paramIn = ''path'', paramType = ''string'', paramFormat = None,
      paramRequired = True, paramDescription = [], paramDefault = None, paramEnum = None\<rparr>"

definition queryParam :: "string \<Rightarrow> ParsedParameter" where
  "queryParam n =
     \<lparr>paramName = n, paramIn = ''query'', paramType = ''string'', paramFormat = None,
      paramRequired = False, paramDescription = [], paramDefault = None, paramEnum = None\<rparr>"

definition getMessageOp :: ParsedOperation where
  "getMessageOp = baseOp\<lparr>parameters := [pathParam ''connectionId'', pathParam ''messageId'']\<rparr>"

definition searchMailOp :: ParsedOperation where
  "searchMailOp =
     baseOp\<lparr>operationId := ''SearchMail'', path := ''/{connectionId}/v2/Mail'',
            parameters := [pathParam ''connectionId'', queryParam ''$filter'', queryParam ''$top'']\<rparr>"

definition stringProp :: "string \<Rightarrow> bool \<Rightarrow> ParsedBodyProperty" where
  "stringProp n req =
     \<lparr>propName = n, propType = ''string'', propFormat = None, propDescription = [],
      propRequired = req, propVisibility = ''none'', propEnum = None, propDefault = None\<rparr>"

definition sendEmailOp :: ParsedOperation where
  "sendEmailOp =
     baseOp\<lparr>operationId := ''SendEmail'', httpMethod := ''post'', path := ''/{connectionId}/v2/Mail'',
            parameters := [pathParam ''connectionId''],
            requestBody := Some \<lparr>bodyRequired = True, bodySchema = Some (JObj []),
                                  requiredFields = [''Subject''],
                                  properties = [(''Subject'', stringProp ''Subject'' True),
                                                (''Body'', stringProp ''Body'' False)]\<rparr>\<rparr>"

definition office365Conn :: ConnectionInfo where
  \<comment> \<open>\<open>makeConnection()\<close> of the tests\<close>
  "office365Conn =
     \<lparr>connName = ''office365'', apiName = ''office365'', displayName = ''Office 365 Outlook'',
      connStatus = ''Connected'',
      apiId = ''/subscriptions/sub-123/providers/Microsoft.Web/locations/westus/managedApis/office365''\<rparr>"

definition invokeWith :: "(string \<times> json) list \<Rightarrow> tool_reply \<times> ServerState" where
  \<comment> \<open>\<open>GetMessage\<close> invoked with the given params; ARM answers with an empty object\<close>
  "invokeWith params =
     invokeDynamicTool (\<lambda>n. Inr (JObj [])) (\<lambda>s. None) (Inr ''test-token'') testContext
       office365Conn getMessageOp params initialState"

section \<open>Properties of key sanitization\<close>

lemma isKeyChar_underscore: "isKeyChar (CHR ''_'')"
  by (simp add: isKeyChar_def)

lemma list_all_replaceUnsafe: "list_all isKeyChar (replaceUnsafe s)"
  by (induction s) (simp_all add: replaceUnsafe_def isKeyChar_underscore)

lemma replaceUnsafe_id: "list_all isKeyChar s \<Longrightarrow> replaceUnsafe s = s"
  by (induction s) (simp_all add: replaceUnsafe_def)

lemma list_all_dropWhile: "list_all P s \<Longrightarrow> list_all P (dropWhile Q s)"
  by (induction s) simp_all

lemma list_all_take: "list_all P s \<Longrightarrow> list_all P (take n s)"
  by (induction s arbitrary: n) (simp_all add: take_Cons split: nat.splits)

lemma list_all_collapse: "list_all P s \<Longrightarrow> list_all P (collapseUnderscores s)"
  by (induction s rule: collapseUnderscores.induct) (auto simp: list_all_dropWhile)

lemma collapse_Nil_iff: "collapseUnderscores s = [] \<longleftrightarrow> s = []"
  by (cases s) simp_all

lemma hd_collapse: "s \<noteq> [] \<Longrightarrow> hd (collapseUnderscores s) = hd s"
  by (cases s) simp_all

lemma noUnderscoreRun_Cons:
  "noUnderscoreRun (a # s) \<longleftrightarrow> s = [] \<or> (\<not> (a = CHR ''_'' \<and> hd s = CHR ''_'') \<and> noUnderscoreRun s)"
  by (cases s) simp_all

lemma dropWhile_head: "dropWhile P s \<noteq> [] \<Longrightarrow> \<not> P (hd (dropWhile P s))"
  by (rule hd_dropWhile)

lemma noUnderscoreRun_collapse: "noUnderscoreRun (collapseUnderscores s)"
proof (induction s rule: collapseUnderscores.induct)
  case 1
  show ?case by simp
next
  case (2 c cs)
  show ?case
  proof (cases "c = CHR ''_''")
    case True
    define d where "d = dropWhile (\<lambda>d. d = CHR ''_'') cs"
    have ih: "noUnderscoreRun (collapseUnderscores d)"
      unfolding d_def using 2(1) True by blast
    have eq: "collapseUnderscores (c # cs) = CHR ''_'' # collapseUnderscores d"
      unfolding d_def using True by simp
    have "d \<noteq> [] \<Longrightarrow> hd d \<noteq> CHR ''_''"
      unfolding d_def using dropWhile_head[of "\<lambda>d. d = CHR ''_''" cs] by blast
    then have "collapseUnderscores d \<noteq> [] \<Longrightarrow> hd (collapseUnderscores d) \<noteq> CHR ''_''"
      using hd_collapse[of d] collapse_Nil_iff[of d] by metis
    then show ?thesis
      unfolding eq noUnderscoreRun_Cons using ih by blast
  next
    case False
    then have ih: "noUnderscoreRun (collapseUnderscores cs)" using 2(2) by blast
    have eq: "collapseUnderscores (c # cs) = c # collapseUnderscores cs"
      using False by simp
    show ?thesis unfolding eq noUnderscoreRun_Cons using ih False by blast
  qed
qed

lemma noUnderscoreRun_take: "noUnderscoreRun s \<Longrightarrow> noUnderscoreRun (take n s)"
proof (induction s arbitrary: n rule: noUnderscoreRun.induct)
  case (1 a b cs)
  show ?case
  proof (cases n)
    case 0
    then show ?thesis by simp
  next
    case (Suc m)
    show ?thesis
    proof (cases m)
      case 0
      then show ?thesis using Suc by simp
    next
      case (Suc k)
      have "noUnderscoreRun (take m (b # cs))" using 1 by simp
      then show ?thesis using 1 \<open>n = Suc m\<close> Suc by simp
    qed
  qed
qed (simp_all add: take_Cons split: nat.splits)

lemma collapse_id: "noUnderscoreRun s \<Longrightarrow> collapseUnderscores s = s"
proof (induction s rule: collapseUnderscores.induct)
  case 1
  show ?case by simp
next
  case (2 c cs)
  show ?case
  proof (cases cs)
    case Nil
    then show ?thesis by simp
  next
    case (Cons b bs)
    then have nb: "\<not> (c = CHR ''_'' \<and> b = CHR ''_'')" and tl: "noUnderscoreRun cs"
      using 2(3) by simp_all
    show ?thesis
    proof (cases "c = CHR ''_''")
      case True
      then have "dropWhile (\<lambda>d. d = CHR ''_'') cs = cs" using nb Cons by simp
      then show ?thesis using True 2(1) tl by simp
    next
      case False
      then show ?thesis using 2(2) tl by simp
    qed
  qed
qed

lemma headOk_stripLeading: "headOk (stripLeading s)"
proof (cases "stripLeading s")
  case Nil
  then show ?thesis by simp
next
  case (Cons c cs)
  then have "\<not> (hd (stripLeading s) = CHR ''.'' \<or> hd (stripLeading s) = CHR ''-'')"
    unfolding stripLeading_def
    using hd_dropWhile[of "\<lambda>c. c = CHR ''.'' \<or> c = CHR ''-''" s] by fastforce
  then show ?thesis using Cons by simp
qed

lemma headOk_collapse: "headOk s \<Longrightarrow> headOk (collapseUnderscores s)"
  by (cases s) simp_all

lemma headOk_take: "headOk s \<Longrightarrow> headOk (take n s)"
  by (cases s; cases n) simp_all

lemma stripLeading_id: "headOk s \<Longrightarrow> stripLeading s = s"
  by (cases s) (simp_all add: stripLeading_def)

lemma sanitizeKey_param: "sanitizeKey ''param'' = ''param''"
  by code_simp

lemma sanitizeKey_fixed:
  assumes "list_all isKeyChar y" "headOk y" "noUnderscoreRun y" "length y \<le> 64" "y \<noteq> []"
  shows "sanitizeKey y = y"
  using assms by (simp add: sanitizeKey_def replaceUnsafe_id stripLeading_id collapse_id)

lemma sanitizeKey_shape:
  "sanitizeKey x = ''param'' \<or>
   (sanitizeKey x \<noteq> [] \<and> list_all isKeyChar (sanitizeKey x) \<and> headOk (sanitizeKey x)
    \<and> noUnderscoreRun (sanitizeKey x) \<and> length (sanitizeKey x) \<le> 64)"
proof -
  define y where "y = take 64 (collapseUnderscores (stripLeading (replaceUnsafe x)))"
  have a: "list_all isKeyChar y" unfolding y_def
    by (intro list_all_take list_all_collapse) (simp add: stripLeading_def list_all_dropWhile list_all_replaceUnsafe)
  have b: "headOk y" unfolding y_def by (intro headOk_take headOk_collapse headOk_stripLeading)
  have c: "noUnderscoreRun y" unfolding y_def by (intro noUnderscoreRun_take noUnderscoreRun_collapse)
  have d: "length y \<le> 64" unfolding y_def by simp
  have e: "sanitizeKey x = (if y = [] then ''param'' else y)"
    unfolding y_def sanitizeKey_def Let_def ..
  show ?thesis
  proof (cases "y = []")
    case True
    then show ?thesis using e by simp
  next
    case False
    then have "sanitizeKey x = y" using e by simp
    then show ?thesis using False a b c d by simp
  qed
qed

lemma sanitizeKey_idem: "sanitizeKey (sanitizeKey x) = sanitizeKey x"
  using sanitizeKey_shape[of x]
proof
  assume "sanitizeKey x = ''param''"
  then show ?thesis by (simp add: sanitizeKey_param)
next
  assume "sanitizeKey x \<noteq> [] \<and> list_all isKeyChar (sanitizeKey x) \<and> headOk (sanitizeKey x)
    \<and> noUnderscoreRun (sanitizeKey x) \<and> length (sanitizeKey x) \<le> 64"
  then show ?thesis by (intro sanitizeKey_fixed) simp_all
qed

lemma matches_param: "matchesToolNamePattern ''param''"
  by code_simp

lemma sanitizeKey_matches: "matchesToolNamePattern (sanitizeKey x)"
  using sanitizeKey_shape[of x]
proof
  assume "sanitizeKey x = ''param''"
  then show ?thesis by (simp add: matches_param)
next
  assume h: "sanitizeKey x \<noteq> [] \<and> list_all isKeyChar (sanitizeKey x) \<and> headOk (sanitizeKey x)
    \<and> noUnderscoreRun (sanitizeKey x) \<and> length (sanitizeKey x) \<le> 64"
  then have "1 \<le> length (sanitizeKey x)" by (cases "sanitizeKey x") simp_all
  then show ?thesis using h unfolding matchesToolNamePattern_def by simp
qed

text \<open>
  Claim C6. For every string \<open>x\<close>, sanitizing twice gives the same key as sanitizing
  once; the key always matches \<open>^[a-zA-Z0-9_.-]{1,64}$\<close>; and \<open>$filter\<close>,
  \<open>$top\<close> and the empty string are sent to \<open>_filter\<close>, \<open>_top\<close> and
  \<open>param\<close>.
\<close>

theorem sanitizeKey_idempotent_and_valid:
  "sanitizeKey (sanitizeKey x) = sanitizeKey x
   \<and> matchesToolNamePattern (sanitizeKey x)
   \<and> sanitizeKey ''$filter'' = ''_filter''
   \<and> sanitizeKey ''$top'' = ''_top''
   \<and> sanitizeKey '''' = ''param''"
proof -
  have "sanitizeKey ''$filter'' = ''_filter''" by code_simp
  moreover have "sanitizeKey ''$top'' = ''_top''" by code_simp
  moreover have "sanitizeKey '''' = ''param''" by code_simp
  ultimately show ?thesis using sanitizeKey_idem sanitizeKey_matches by simp
qed

section \<open>Properties of tool names\<close>

lemma list_all_drop: "list_all P s \<Longrightarrow> list_all P (drop n s)"
  by (simp add: list_all_iff) (meson in_set_dropD)

lemma isKeyChar_set:
  "isKeyChar c \<longleftrightarrow>
   c \<in> set (''abcdefghijklmnopqrstuvwxyz'' @ ''ABCDEFGHIJKLMNOPQRSTUVWXYZ'' @ ''0123456789'' @ ''_.-'')"
  unfolding isKeyChar_def isLowerAZ_def isUpperAZ_def isDigit09_def set_append by blast

lemma keyChars_lowered:
  "list_all (\<lambda>c. isKeyChar (toLowerCaseUnit c))
     (''abcdefghijklmnopqrstuvwxyz'' @ ''ABCDEFGHIJKLMNOPQRSTUVWXYZ'' @ ''0123456789'' @ ''_.-'')"
  by code_simp

lemma isKeyChar_toLowerCaseUnit: "isKeyChar c \<Longrightarrow> isKeyChar (toLowerCaseUnit c)"
  using keyChars_lowered unfolding isKeyChar_set[of c] list_all_iff by blast

lemma list_all_toLowerCase: "list_all isKeyChar s \<Longrightarrow> list_all isKeyChar (toLowerCase s)"
  by (induction s) (simp_all add: toLowerCase_def isKeyChar_toLowerCaseUnit)

lemma list_all_splitLowerUpper:
  "list_all isKeyChar s \<Longrightarrow> list_all isKeyChar (splitLowerUpper s)"
  by (induction s rule: splitLowerUpper.induct) (simp_all add: isKeyChar_underscore)

lemma length_splitLowerUpper: "length s \<le> length (splitLowerUpper s)"
  by (induction s rule: splitLowerUpper.induct) auto

lemma find_Some_holds: "find P xs = Some x \<Longrightarrow> P x \<and> x \<in> set xs"
  by (induction xs) (auto split: if_splits)

lemma matchCapsRun_Some:
  assumes "matchCapsRun s = Some k"
  shows "1 \<le> k \<and> k + 2 \<le> length s"
proof -
  from assms have mem: "k \<in> set (rev [1 ..< Suc (length (takeWhile isUpperAZ s))])"
    and ok: "(case drop k s of b # c # _ \<Rightarrow> isUpperAZ b \<and> isLowerAZ c | _ \<Rightarrow> False)"
    unfolding matchCapsRun_def by (blast dest: find_Some_holds)+
  from mem have "1 \<le> k" by auto
  moreover from ok have "2 \<le> length (drop k s)"
    by (cases "drop k s"; cases "tl (drop k s)") auto
  ultimately show ?thesis by simp
qed

lemma list_all_splitCapsRun:
  "list_all isKeyChar s \<Longrightarrow> list_all isKeyChar (splitCapsRun s)"
proof (induction s rule: splitCapsRun.induct)
  case 1
  show ?case by simp
next
  case (2 c cs)
  show ?case
  proof (cases "matchCapsRun (c # cs)")
    case None
    then show ?thesis using 2 by simp
  next
    case (Some k)
    have "list_all isKeyChar (splitCapsRun (drop (k + 2) (c # cs)))"
      using 2(2)[OF Some] 2(3) list_all_drop by blast
    moreover have "list_all isKeyChar (take k (c # cs))"
      using 2(3) by (rule list_all_take)
    moreover have "list_all isKeyChar (take 2 (drop k (c # cs)))"
      using 2(3) by (intro list_all_take list_all_drop)
    ultimately show ?thesis using Some by (simp add: isKeyChar_underscore)
  qed
qed

lemma length_splitCapsRun: "length s \<le> length (splitCapsRun s)"
proof (induction s rule: splitCapsRun.induct)
  case 1
  show ?case by simp
next
  case (2 c cs)
  show ?case
  proof (cases "matchCapsRun (c # cs)")
    case None
    then show ?thesis using 2 by simp
  next
    case (Some k)
    from matchCapsRun_Some[OF Some] have k: "1 \<le> k" "k + 2 \<le> length (c # cs)" by simp_all
    have ih: "length (drop (k + 2) (c # cs)) \<le> length (splitCapsRun (drop (k + 2) (c # cs)))"
      using 2(2)[OF Some] .
    have "length (take k (c # cs)) = k" using k by simp
    moreover have "length (take 2 (drop k (c # cs))) = 2" using k by simp
    moreover have "length (drop (k + 2) (c # cs)) = length (c # cs) - (k + 2)" by simp
    ultimately have "length (c # cs) \<le> length (take k (c # cs) @ CHR ''_'' # take 2 (drop k (c # cs))
          @ splitCapsRun (drop (k + 2) (c # cs)))"
      using ih k by (simp del: drop_Suc_Cons take_Suc_Cons length_drop)
    then show ?thesis using Some by simp
  qed
qed

lemma length_buildToolName:
  "length api + 1 + length opId \<le> length (buildToolName api opId)"
proof -
  have "length opId \<le> length (splitCapsRun (splitLowerUpper opId))"
    using length_splitLowerUpper[of opId] length_splitCapsRun[of "splitLowerUpper opId"]
    by (rule le_trans)
  then show ?thesis by (simp add: buildToolName_def toLowerCase_def)
qed

lemma list_all_buildToolName:
  "list_all isKeyChar api \<Longrightarrow> list_all isKeyChar opId
   \<Longrightarrow> list_all isKeyChar (buildToolName api opId)"
  by (simp add: buildToolName_def isKeyChar_underscore list_all_toLowerCase
        list_all_splitCapsRun list_all_splitLowerUpper)

lemma upper_not_lower: "isUpperAZ c \<Longrightarrow> \<not> isLowerAZ c \<and> \<not> isDigit09 c \<and> c \<noteq> CHR ''_''"
  unfolding isUpperAZ_def isLowerAZ_def isDigit09_def by auto

lemma splitLowerUpper_spec:
  "splitLowerUpper s = (case s of [] \<Rightarrow> [] | c # cs \<Rightarrow> c # splitBefore lowerToUpper c cs)"
proof (induction s rule: splitLowerUpper.induct)
  case (1 a b cs)
  show ?case
  proof (cases "(isLowerAZ a \<or> isDigit09 a) \<and> isUpperAZ b")
    case True
    then have nb: "\<And>c r. \<not> lowerToUpper b c r"
      using upper_not_lower[of b] by (simp add: lowerToUpper_def)
    have "splitLowerUpper cs = splitBefore lowerToUpper b cs"
      using 1(1)[OF True] nb by (cases cs) simp_all
    then show ?thesis using True by (simp add: lowerToUpper_def)
  next
    case False
    then show ?thesis using 1(2)[OF False] by (auto simp: lowerToUpper_def)
  qed
qed simp_all

lemma matchCapsRun_Some_shape:
  assumes "matchCapsRun s = Some k"
  shows "\<exists>run u l rest. s = run @ u # l # rest \<and> length run = k \<and> run \<noteq> []
           \<and> list_all isUpperAZ run \<and> isUpperAZ u \<and> isLowerAZ l"
proof -
  from assms have mem: "k \<in> set (rev [1 ..< Suc (length (takeWhile isUpperAZ s))])"
    and okk: "(case drop k s of b # c # _ \<Rightarrow> isUpperAZ b \<and> isLowerAZ c | _ \<Rightarrow> False)"
    unfolding matchCapsRun_def by (blast dest: find_Some_holds)+
  from mem have k: "1 \<le> k" "k \<le> length (takeWhile isUpperAZ s)" by auto
  from okk obtain u l rest where d: "drop k s = u # l # rest" "isUpperAZ u" "isLowerAZ l"
    by (cases "drop k s"; cases "tl (drop k s)") auto
  have s: "s = take k s @ u # l # rest" using d(1) by (metis append_take_drop_id)
  have "take k s = take k (takeWhile isUpperAZ s)"
    using k(2) by (metis append_eq_conv_conj takeWhile_dropWhile_id take_append take_all
        diff_is_0_eq take_0 append_Nil2)
  then have "list_all isUpperAZ (take k s)"
    by (metis list_all_iff in_set_takeD set_takeWhileD)
  moreover have "length (take k s) = k"
    using k(2) length_takeWhile_le[of isUpperAZ s] by simp
  moreover have "take k s \<noteq> []" using calculation(2) k(1) by auto
  ultimately show ?thesis using s d by blast
qed

lemma matchCapsRun_None:
  assumes "matchCapsRun (c # d # ds) = None"
  shows "\<not> capsBeforeWord c d ds"
proof
  assume "capsBeforeWord c d ds"
  then obtain n ns where h: "isUpperAZ c" "isUpperAZ d" "ds = n # ns" "isLowerAZ n"
    by (auto simp: capsBeforeWord_def split: list.splits)
  then have n: "\<not> isUpperAZ n" using upper_not_lower[of n] by blast
  have "matchCapsRun (c # d # n # ns) = Some 1"
    using h n by (simp add: matchCapsRun_def upt_rec split: list.splits)
  then show False using assms h by simp
qed

lemma splitBefore_caps_run:
  assumes "isUpperAZ p" "list_all isUpperAZ run" "isUpperAZ u" "isLowerAZ l"
  shows "splitBefore capsBeforeWord p (run @ u # l # rest)
           = run @ CHR ''_'' # u # l # splitBefore capsBeforeWord l rest"
  using assms
proof (induction run arbitrary: p)
  case Nil
  then show ?case using upper_not_lower[of l] by (auto simp: capsBeforeWord_def)
next
  case (Cons r rs)
  have "\<not> capsBeforeWord p r (rs @ u # l # rest)"
    using Cons.prems upper_not_lower by (cases rs) (auto simp: capsBeforeWord_def)
  then show ?case using Cons by simp
qed

lemma splitCapsRun_spec:
  "splitCapsRun s = (case s of [] \<Rightarrow> [] | c # cs \<Rightarrow> c # splitBefore capsBeforeWord c cs)"
proof (induction s rule: splitCapsRun.induct)
  case 1
  show ?case by simp
next
  case (2 c cs)
  show ?case
  proof (cases "matchCapsRun (c # cs)")
    case None
    have "splitCapsRun cs = splitBefore capsBeforeWord c cs"
    proof (cases cs)
      case Nil
      then show ?thesis by simp
    next
      case (Cons d ds)
      then show ?thesis using 2(1)[OF None] matchCapsRun_None[of c d ds] None by simp
    qed
    then show ?thesis using None by simp
  next
    case (Some k)
    from matchCapsRun_Some_shape[OF Some] obtain run u l rest where
      sh: "c # cs = run @ u # l # rest" "length run = k" "run \<noteq> []"
          "list_all isUpperAZ run" "isUpperAZ u" "isLowerAZ l" by blast
    from sh(1,3) obtain run' where run: "run = c # run'" by (cases run) auto
    then have cs: "cs = run' @ u # l # rest" using sh(1) by simp
    have up: "isUpperAZ c" "list_all isUpperAZ run'" using sh(4) run by simp_all
    have nl: "\<And>x r. \<not> capsBeforeWord l x r"
      using sh(6) upper_not_lower[of l] by (auto simp: capsBeforeWord_def)
    have t: "take k (c # cs) = run" "take 2 (drop k (c # cs)) = [u, l]"
      "drop (k + 2) (c # cs) = rest"
      using sh(1,2) by simp_all
    have "splitCapsRun rest = splitBefore capsBeforeWord l rest"
      using 2(2)[OF Some] nl unfolding t(3) by (cases rest) simp_all
    then have "splitCapsRun (c # cs) = run @ CHR ''_'' # u # l # splitBefore capsBeforeWord l rest"
      using Some t by (simp del: take_Suc_Cons drop_Suc_Cons)
    also have "\<dots> = c # splitBefore capsBeforeWord c cs"
      unfolding cs using splitBefore_caps_run[OF up(1) up(2) sh(5) sh(6), of rest] run by simp
    finally show ?thesis by simp
  qed
qed

lemma splitBefore_compose:
  "splitBefore capsBeforeWord c (splitBefore lowerToUpper c cs)
     = splitBefore (\<lambda>prev c rest. lowerToUpper prev c rest \<or> capsBeforeWord prev c rest) c cs"
proof (induction cs arbitrary: c)
  case Nil
  show ?case by simp
next
  case (Cons d ds)
  show ?case
  proof (cases "lowerToUpper c d ds")
    case True
    then show ?thesis using Cons.IH[of d] by (simp add: capsBeforeWord_def isUpperAZ_def)
  next
    case False
    have "capsBeforeWord c d (splitBefore lowerToUpper d ds) = capsBeforeWord c d ds"
    proof (cases "isUpperAZ d")
      case True
      then have "\<And>n r. \<not> lowerToUpper d n r"
        using upper_not_lower[of d] by (simp add: lowerToUpper_def)
      then show ?thesis by (cases ds) (simp_all add: capsBeforeWord_def)
    next
      case False
      then show ?thesis by (simp add: capsBeforeWord_def)
    qed
    then show ?thesis using False Cons.IH[of d] by simp
  qed
qed

lemma buildToolName_snakeCaseSpec:
  "buildToolName api opId = api @ ''_'' @ snakeCaseSpec opId"
proof (cases opId)
  case Nil
  then show ?thesis by (simp add: buildToolName_def snakeCaseSpec_def)
next
  case (Cons c cs)
  have "splitCapsRun (splitLowerUpper (c # cs))
          = splitCapsRun (c # splitBefore lowerToUpper c cs)"
    by (subst splitLowerUpper_spec) simp
  also have "\<dots> = c # splitBefore capsBeforeWord c (splitBefore lowerToUpper c cs)"
    by (subst splitCapsRun_spec) simp
  finally show ?thesis
    using Cons by (simp add: buildToolName_def snakeCaseSpec_def splitBefore_compose)
qed

lemma snake_examples:
  "buildToolName ''testapi'' ''GetHTTPResponse'' = ''testapi_get_http_response''
   \<and> buildToolName ''testapi'' ''HTTPRequest'' = ''testapi_http_request''
   \<and> buildToolName ''testapi'' ''GetItemsV2'' = ''testapi_get_items_v2''
   \<and> buildToolName ''testapi'' ''ListURLs'' = ''testapi_list_ur_ls''"
  by code_simp

text \<open>
  Claim C5 (amended). \<open>buildToolName(apiName, operationId)\<close> is \<open>apiName\<close>, an
  underscore and the snake-cased operation id: the operation id with an underscore put
  before every capital that follows a lower-case letter or a digit and before every
  capital that follows a capital and precedes a lower-case letter, lower-cased, as in
  \<open>SendEmail\<close>, \<open>GetAllTeams\<close> and \<open>V4CalendarPostItem\<close>. Nothing is truncated or
  sanitized: the snake part is at least as long as the operation id. The name matches
  \<open>^[a-zA-Z0-9_.-]{1,64}$\<close> whenever \<open>apiName\<close> and \<open>operationId\<close> consist of
  characters of \<open>[a-zA-Z0-9_.-]\<close> and the name has at most 64 characters.
\<close>

theorem buildToolName_shape:
  "buildToolName api opId = api @ ''_'' @ snakeCaseSpec opId
   \<and> buildToolName ''testapi'' ''SendEmail'' = ''testapi_send_email''
   \<and> buildToolName ''testapi'' ''GetAllTeams'' = ''testapi_get_all_teams''
   \<and> buildToolName ''testapi'' ''V4CalendarPostItem'' = ''testapi_v4_calendar_post_item''
   \<and> buildToolName ''testapi'' ''GetHTTPResponse'' = ''testapi_get_http_response''
   \<and> length opId \<le> length (snakeCaseSpec opId)
   \<and> (list_all isKeyChar api \<and> list_all isKeyChar opId
        \<and> length (buildToolName api opId) \<le> 64
       \<longrightarrow> matchesToolNamePattern (buildToolName api opId))"
proof -
  have e0: "buildToolName api opId = api @ ''_'' @ snakeCaseSpec opId"
    by (rule buildToolName_snakeCaseSpec)
  have e1: "buildToolName ''testapi'' ''SendEmail'' = ''testapi_send_email''" by code_simp
  have e2: "buildToolName ''testapi'' ''GetAllTeams'' = ''testapi_get_all_teams''" by code_simp
  have e3: "buildToolName ''testapi'' ''V4CalendarPostItem'' = ''testapi_v4_calendar_post_item''"
    by code_simp
  have e4: "buildToolName ''testapi'' ''GetHTTPResponse'' = ''testapi_get_http_response''"
    by code_simp
  have len: "length opId \<le> length (snakeCaseSpec opId)"
    using length_buildToolName[of api opId] unfolding e0 by simp
  have "1 \<le> length (buildToolName api opId)"
    using length_buildToolName[of api opId] by simp
  then have e5: "list_all isKeyChar api \<and> list_all isKeyChar opId
        \<and> length (buildToolName api opId) \<le> 64
       \<longrightarrow> matchesToolNamePattern (buildToolName api opId)"
    unfolding matchesToolNamePattern_def using list_all_buildToolName by blast
  from e0 e1 e2 e3 e4 len e5 show ?thesis by blast
qed

theorem buildToolName_shape_witness:
  "list_all isKeyChar ''office365'' \<and> list_all isKeyChar ''SendEmail''
   \<and> length (buildToolName ''office365'' ''SendEmail'') \<le> 64
   \<and> matchesToolNamePattern (buildToolName ''office365'' ''SendEmail'')"
proof -
  have a: "list_all isKeyChar ''office365''" by code_simp
  have b: "list_all isKeyChar ''SendEmail''" by code_simp
  have c: "length (buildToolName ''office365'' ''SendEmail'') \<le> 64" by code_simp
  from buildToolName_shape[of "''office365''" "''SendEmail''"] a b c
  show ?thesis by blast
qed

text \<open>
  As first stated, C5 promises the pattern for every produced name. The parser's fallback
  operation id \<open><method>_<path>\<close> gives a name with characters outside the pattern,
  and a long operation id gives a name of 84 characters.
\<close>

theorem buildToolName_pattern_counterexample:
  "\<not> matchesToolNamePattern (buildToolName ''office365'' ''get_/{connectionId}/v2/Mail'')
   \<and> buildToolName ''office365'' ''get_/{connectionId}/v2/Mail''
       = ''office365_get_/{connection_id}/v2/mail''
   \<and> buildToolName ''sharepointonline'' ''GetAllItemsFromDocumentLibraryWithPropertiesAndAttachments''
       = ''sharepointonline_get_all_items_from_document_library_with_properties_and_attachments''
   \<and> length (buildToolName ''sharepointonline''
         ''GetAllItemsFromDocumentLibraryWithPropertiesAndAttachments'') = 84
   \<and> \<not> matchesToolNamePattern (buildToolName ''sharepointonline''
         ''GetAllItemsFromDocumentLibraryWithPropertiesAndAttachments'')"
  by code_simp

section \<open>Properties of the ARM request pipeline\<close>

lemma isRetryable_not_ok: "isRetryable (status r) \<Longrightarrow> \<not> ok r"
  by (auto simp: isRetryable_def ok_def)

lemma shapeArmError_is_ArmError:
  "\<exists>c m. shapeArmError r = ArmError c m (status r)"
  by (simp add: shapeArmError_def Let_def split: option.splits body.splits)

lemma armLoop_retry:
  assumes "attempt < MAX_RETRIES" "transport (length calls) = FetchResponse r"
    "isRetryable (status r)"
  shows "armLoop transport attempt le calls = armLoop transport (attempt + 1) le (calls @ [attempt])"
  using assms isRetryable_not_ok[of r]
  by (subst armLoop.simps) (simp add: attemptOnce_def Let_def)

lemma armLoop_raise:
  assumes "attempt \<le> MAX_RETRIES" "transport (length calls) = FetchResponse r" "\<not> ok r"
    "\<not> (isRetryable (status r) \<and> attempt < MAX_RETRIES)"
  shows "armLoop transport attempt le calls
           = \<lparr>fetches = calls @ [attempt], outcome = Inl (shapeArmError r)\<rparr>"
  using assms by (subst armLoop.simps) (auto simp: attemptOnce_def Let_def)

lemma armRequest_all_retryable:
  assumes "\<forall>i\<le>MAX_RETRIES. \<exists>r. transport i = FetchResponse r \<and> isRetryable (status r)"
  shows "\<exists>r. transport MAX_RETRIES = FetchResponse r \<and> isRetryable (status r)
           \<and> armRequest transport = \<lparr>fetches = [0, 1, 2, 3], outcome = Inl (shapeArmError r)\<rparr>"
proof -
  have all: "\<And>i. i \<le> 3 \<Longrightarrow> \<exists>r. transport i = FetchResponse r \<and> isRetryable (status r)"
    using assms unfolding MAX_RETRIES_def by blast
  from all[of 0] obtain r0 where r0: "transport 0 = FetchResponse r0" "isRetryable (status r0)"
    by auto
  from all[of 1] obtain r1 where r1: "transport 1 = FetchResponse r1" "isRetryable (status r1)"
    by auto
  from all[of 2] obtain r2 where r2: "transport 2 = FetchResponse r2" "isRetryable (status r2)"
    by auto
  from all[of 3] obtain r3 where r3: "transport 3 = FetchResponse r3" "isRetryable (status r3)"
    by auto
  have "armRequest transport = armLoop transport 1 None [0]"
    unfolding armRequest_def using armLoop_retry[of 0 transport "[]" r0 None] r0
    by (simp add: MAX_RETRIES_def)
  also have "\<dots> = armLoop transport 2 None [0, 1]"
    using armLoop_retry[of 1 transport "[0]" r1 None] r1
    by (simp add: MAX_RETRIES_def eval_nat_numeral)
  also have "\<dots> = armLoop transport 3 None [0, 1, 2]"
    using armLoop_retry[of 2 transport "[0, 1]" r2 None] r2
    by (simp add: MAX_RETRIES_def eval_nat_numeral)
  also have "\<dots> = \<lparr>fetches = [0, 1, 2, 3], outcome = Inl (shapeArmError r3)\<rparr>"
    using armLoop_raise[of 3 transport "[0, 1, 2]" r3 None] r3 isRetryable_not_ok[OF r3(2)]
    by (simp add: MAX_RETRIES_def eval_nat_numeral)
  finally show ?thesis using r3 by (simp add: MAX_RETRIES_def)
qed

lemma armRequest_first_raise:
  assumes "transport 0 = FetchResponse r" "\<not> ok r" "\<not> isRetryable (status r)"
  shows "armRequest transport = \<lparr>fetches = [0], outcome = Inl (shapeArmError r)\<rparr>"
  unfolding armRequest_def using armLoop_raise[of 0 transport "[]" r None] assms by simp

lemma armRequest_throttledThenOk:
  "armRequest throttledThenOk = \<lparr>fetches = [0, 1], outcome = Inr (JObj [(''value'', JArr [])])\<rparr>"
  by code_simp

text \<open>
  Claim C7. When each of the first four calls of \<open>fetch\<close> gets a response with status
  429, or 500 and above, \<open>armRequest\<close> calls \<open>fetch\<close> exactly 4 times, at the attempts
  0, 1, 2 and 3, and then raises; on a status from 400 to 499 other than 429 it calls
  \<open>fetch\<close> once and raises, without a retry.
\<close>

theorem armRequest_retry_budget:
  "((\<forall>i<4. \<exists>r. transport i = FetchResponse r \<and> (status r = 429 \<or> 500 \<le> status r))
      \<longrightarrow> fetches (armRequest transport) = [0, 1, 2, 3]
          \<and> length (fetches (armRequest transport)) = 4
          \<and> isl (outcome (armRequest transport)))
   \<and> ((\<exists>r. transport 0 = FetchResponse r \<and> 400 \<le> status r \<and> status r \<le> 499
             \<and> status r \<noteq> 429)
      \<longrightarrow> fetches (armRequest transport) = [0]
          \<and> length (fetches (armRequest transport)) = 1
          \<and> isl (outcome (armRequest transport)))"
proof (intro conjI impI)
  assume "\<forall>i<4. \<exists>r. transport i = FetchResponse r \<and> (status r = 429 \<or> 500 \<le> status r)"
  then have h: "\<forall>i\<le>MAX_RETRIES. \<exists>r. transport i = FetchResponse r \<and> isRetryable (status r)"
    by (simp add: MAX_RETRIES_def isRetryable_def)
  from armRequest_all_retryable[OF h]
  show "fetches (armRequest transport) = [0, 1, 2, 3]"
    and "length (fetches (armRequest transport)) = 4"
    and "isl (outcome (armRequest transport))"
    by auto
next
  assume "\<exists>r. transport 0 = FetchResponse r \<and> 400 \<le> status r \<and> status r \<le> 499
             \<and> status r \<noteq> 429"
  then obtain r where r: "transport 0 = FetchResponse r" "400 \<le> status r" "status r \<le> 499"
    "status r \<noteq> 429" by blast
  then have "\<not> ok r" "\<not> isRetryable (status r)" by (simp_all add: ok_def isRetryable_def)
  from armRequest_first_raise[of transport r, OF r(1) this]
  show "fetches (armRequest transport) = [0]"
    and "length (fetches (armRequest transport)) = 1"
    and "isl (outcome (armRequest transport))"
    by simp_all
qed

theorem armRequest_retry_budget_witness:
  "fetches (armRequest (\<lambda>i. FetchResponse \<lparr>status = 500, retryAfter = None, body = BodyEmpty\<rparr>))
     = [0, 1, 2, 3]
   \<and> isl (outcome (armRequest (\<lambda>i. FetchResponse \<lparr>status = 500, retryAfter = None, body = BodyEmpty\<rparr>)))
   \<and> fetches (armRequest (\<lambda>i. FetchResponse \<lparr>status = 404, retryAfter = None, body = BodyEmpty\<rparr>))
     = [0]
   \<and> isl (outcome (armRequest (\<lambda>i. FetchResponse \<lparr>status = 404, retryAfter = None, body = BodyEmpty\<rparr>)))"
proof -
  let ?t5 = "\<lambda>i::nat. FetchResponse \<lparr>status = 500, retryAfter = None, body = BodyEmpty\<rparr>"
  let ?t4 = "\<lambda>i::nat. FetchResponse \<lparr>status = 404, retryAfter = None, body = BodyEmpty\<rparr>"
  have a: "\<forall>i<4. \<exists>r. ?t5 i = FetchResponse r \<and> (status r = 429 \<or> 500 \<le> status r)"
    by simp
  have b: "\<exists>r. ?t4 0 = FetchResponse r \<and> 400 \<le> status r \<and> status r \<le> 499 \<and> status r \<noteq> 429"
    by simp
  from armRequest_retry_budget[of ?t5] a armRequest_retry_budget[of ?t4] b
  show ?thesis by blast
qed

lemma attemptOnce_last:
  "attemptOnce out MAX_RETRIES le = NextAttempt le' \<Longrightarrow>
   threwBelowHttp out \<or> (\<exists>r. out = FetchResponse r \<and> ok r \<and> body r = BodyMalformed)"
  by (auto simp: attemptOnce_def threwBelowHttp_def split: fetch_outcome.splits body.splits if_splits)

lemma not_isThrown_shapeArmError: "\<not> isThrown (Inl (shapeArmError r))"
  using shapeArmError_is_ArmError[of r] by (auto simp: isThrown_def)

text \<open>The loop keeps \<open>attempt\<close> equal to the number of calls made so far.\<close>

lemma armLoop_thrown:
  "attempt \<le> MAX_RETRIES \<Longrightarrow> length calls = attempt
   \<Longrightarrow> isThrown (outcome (armLoop transport attempt le calls)) \<Longrightarrow>
   threwBelowHttp (transport MAX_RETRIES)
   \<or> (\<exists>r. transport MAX_RETRIES = FetchResponse r \<and> ok r \<and> body r = BodyMalformed)"
proof (induction transport attempt le calls rule: armLoop.induct)
  case (1 transport attempt lastError calls)
  note le = 1(2) and len = 1(3) and thr = 1(4)
  show ?case
  proof (cases "attemptOnce (transport (length calls)) attempt lastError")
    case (Returned v)
    then have "outcome (armLoop transport attempt lastError calls) = Inr v"
      using le by (subst armLoop.simps) (simp add: Let_def)
    then show ?thesis using thr by (simp add: isThrown_def)
  next
    case (Raised e)
    then have o: "outcome (armLoop transport attempt lastError calls) = Inl e"
      using le by (subst armLoop.simps) (simp add: Let_def)
    from Raised obtain r where "e = shapeArmError r"
      by (auto simp: attemptOnce_def split: fetch_outcome.splits body.splits if_splits)
    then show ?thesis using thr o not_isThrown_shapeArmError by simp
  next
    case (NextAttempt le')
    then have eq: "armLoop transport attempt lastError calls
                     = armLoop transport (attempt + 1) le' (calls @ [attempt])"
      using le by (subst armLoop.simps) (simp add: Let_def)
    show ?thesis
    proof (cases "attempt = MAX_RETRIES")
      case True
      then have "attemptOnce (transport MAX_RETRIES) MAX_RETRIES lastError = NextAttempt le'"
        using NextAttempt len by simp
      then show ?thesis by (rule attemptOnce_last)
    next
      case False
      then have "attempt + 1 \<le> MAX_RETRIES" using le by simp
      moreover have "length (calls @ [attempt]) = attempt + 1" using len by simp
      ultimately show ?thesis
        using 1(1)[OF le refl refl NextAttempt] thr eq by simp
    qed
  qed
qed

text \<open>
  Claim C10 (amended). When each of the first four calls of \<open>fetch\<close> gets a response
  with status 429, or 500 and above, \<open>armRequest\<close> raises, after 4 calls, the
  \<open>ArmError\<close> shaped from the final response: its status code is the status of that response. Its code is \<open>error.code\<close> of
  the decoded body when the body parses as JSON, has a truthy member \<open>error\<close>, and the
  code in it is neither missing nor \<open>null\<close>; otherwise the code is \<open>UnknownError\<close>. Its
  message is decided the same way, on its own, from \<open>error.message\<close>, with the default
  \<open>ARM request failed with status <N>\<close>. An error that is not an \<open>ArmError\<close> is raised
  only when the final attempt itself threw: below the HTTP level, or because the body of
  its 2xx response did not parse as JSON.
\<close>

theorem armRequest_exhausted_error:
  "((\<forall>i<4. \<exists>r. transport i = FetchResponse r \<and> (status r = 429 \<or> 500 \<le> status r))
      \<longrightarrow> (\<exists>r. transport 3 = FetchResponse r
             \<and> fetches (armRequest transport) = [0, 1, 2, 3]
             \<and> outcome (armRequest transport) = Inl (shapeArmError r)))
   \<and> ((\<forall>v. body r' \<noteq> BodyJson v)
      \<longrightarrow> shapeArmError r' =
            ArmError (JStr ''UnknownError'')
              (''ARM request failed with status '' @ showNat (status r')) (status r'))
   \<and> (body r' = BodyJson v
        \<and> (case getProp v ''error'' of None \<Rightarrow> True | Some e \<Rightarrow> \<not> truthy e)
      \<longrightarrow> shapeArmError r' =
            ArmError (JStr ''UnknownError'')
              (''ARM request failed with status '' @ showNat (status r')) (status r'))
   \<and> (body r' = BodyJson v \<and> getProp v ''error'' = Some e \<and> truthy e
      \<longrightarrow> shapeArmError r' =
            ArmError
              (case getProp e ''code'' of
                 None \<Rightarrow> JStr ''UnknownError''
               | Some cd \<Rightarrow> if cd = JNull then JStr ''UnknownError'' else cd)
              (case getProp e ''message'' of
                 None \<Rightarrow> ''ARM request failed with status '' @ showNat (status r')
               | Some msg \<Rightarrow>
                   if msg = JNull then ''ARM request failed with status '' @ showNat (status r')
                   else toStringJS msg)
              (status r'))
   \<and> (isThrown (outcome (armRequest transport))
      \<longrightarrow> threwBelowHttp (transport 3)
          \<or> (\<exists>r. transport 3 = FetchResponse r \<and> 200 \<le> status r \<and> status r \<le> 299
                \<and> body r = BodyMalformed))"
proof (intro conjI impI)
  assume "\<forall>i<4. \<exists>r. transport i = FetchResponse r \<and> (status r = 429 \<or> 500 \<le> status r)"
  then have h: "\<forall>i\<le>MAX_RETRIES. \<exists>r. transport i = FetchResponse r \<and> isRetryable (status r)"
    by (simp add: MAX_RETRIES_def isRetryable_def)
  from armRequest_all_retryable[OF h] obtain r where
    r: "transport 3 = FetchResponse r"
       "armRequest transport = \<lparr>fetches = [0, 1, 2, 3], outcome = Inl (shapeArmError r)\<rparr>"
    unfolding MAX_RETRIES_def by blast
  then show "\<exists>r. transport 3 = FetchResponse r
             \<and> fetches (armRequest transport) = [0, 1, 2, 3]
             \<and> outcome (armRequest transport) = Inl (shapeArmError r)"
    by auto
next
  assume "\<forall>v. body r' \<noteq> BodyJson v"
  then show "shapeArmError r' =
            ArmError (JStr ''UnknownError'')
              (''ARM request failed with status '' @ showNat (status r')) (status r')"
    by (cases "body r'") (simp_all add: shapeArmError_def)
next
  assume "body r' = BodyJson v
        \<and> (case getProp v ''error'' of None \<Rightarrow> True | Some e \<Rightarrow> \<not> truthy e)"
  then show "shapeArmError r' =
            ArmError (JStr ''UnknownError'')
              (''ARM request failed with status '' @ showNat (status r')) (status r')"
    by (cases "getProp v ''error''") (simp_all add: shapeArmError_def)
next
  assume a: "body r' = BodyJson v \<and> getProp v ''error'' = Some e \<and> truthy e"
  have n: "\<And>x d. nullishOr x d = (case x of None \<Rightarrow> d | Some c \<Rightarrow> if c = JNull then d else c)"
  proof -
    fix x d show "nullishOr x d = (case x of None \<Rightarrow> d | Some c \<Rightarrow> if c = JNull then d else c)"
      by (cases x; cases "the x") simp_all
  qed
  show "shapeArmError r' =
            ArmError
              (case getProp e ''code'' of
                 None \<Rightarrow> JStr ''UnknownError''
               | Some cd \<Rightarrow> if cd = JNull then JStr ''UnknownError'' else cd)
              (case getProp e ''message'' of
                 None \<Rightarrow> ''ARM request failed with status '' @ showNat (status r')
               | Some msg \<Rightarrow>
                   if msg = JNull then ''ARM request failed with status '' @ showNat (status r')
                   else toStringJS msg)
              (status r')"
    using a by (simp add: shapeArmError_def n split: option.splits)
next
  assume "isThrown (outcome (armRequest transport))"
  then show "threwBelowHttp (transport 3)
          \<or> (\<exists>r. transport 3 = FetchResponse r \<and> 200 \<le> status r \<and> status r \<le> 299
                \<and> body r = BodyMalformed)"
    unfolding armRequest_def using armLoop_thrown[of 0 "[]" transport None]
    by (simp add: MAX_RETRIES_def ok_def)
qed

lemma armRequest_always503:
  "armRequest always503
     = \<lparr>fetches = [0, 1, 2, 3], outcome = Inl (ArmError (JStr ''ServerBusy'') ''try later'' 503)\<rparr>"
  by code_simp

lemma armRequest_gatewayThenReset:
  "armRequest gatewayThenReset
     = \<lparr>fetches = [0, 1, 2, 3], outcome = Inl (Thrown (NetworkFailure ''ECONNRESET''))\<rparr>"
  by code_simp

lemma armRequest_partial_envelopes:
  "outcome (armRequest codeOnly500)
     = Inl (ArmError (JStr ''InternalServerError'') ''ARM request failed with status 500'' 500)
   \<and> outcome (armRequest messageOnly500)
     = Inl (ArmError (JStr ''UnknownError'') ''backend down'' 500)
   \<and> outcome (armRequest noEnvelope500)
     = Inl (ArmError (JStr ''UnknownError'') ''ARM request failed with status 500'' 500)"
  by code_simp

theorem armRequest_exhausted_error_witness:
  "outcome (armRequest always503) = Inl (ArmError (JStr ''ServerBusy'') ''try later'' 503)
   \<and> fetches (armRequest always503) = [0, 1, 2, 3]
   \<and> isThrown (outcome (armRequest gatewayThenReset))
   \<and> threwBelowHttp (gatewayThenReset 3)"
proof -
  let ?e = "JObj [(''code'', JStr ''ServerBusy''), (''message'', JStr ''try later'')]"
  let ?v = "JObj [(''error'', ?e)]"
  let ?r = "\<lparr>status = 503, retryAfter = None, body = BodyJson ?v\<rparr>"
  have a: "\<forall>i<4. \<exists>r. always503 i = FetchResponse r \<and> (status r = 429 \<or> 500 \<le> status r)"
    by (simp add: always503_def)
  have b: "isThrown (outcome (armRequest gatewayThenReset))"
    by (simp add: armRequest_gatewayThenReset isThrown_def)
  have c: "\<not> (\<exists>r. gatewayThenReset 3 = FetchResponse r \<and> 200 \<le> status r \<and> status r \<le> 299
                \<and> body r = BodyMalformed)"
    by (simp add: gatewayThenReset_def)
  have d: "body ?r = BodyJson ?v \<and> getProp ?v ''error'' = Some ?e \<and> truthy ?e"
    by (simp add: getProp_def)
  from armRequest_exhausted_error[of always503, THEN conjunct1, THEN mp, OF a]
  obtain r where r: "always503 3 = FetchResponse r"
      "fetches (armRequest always503) = [0, 1, 2, 3]"
      "outcome (armRequest always503) = Inl (shapeArmError r)"
    by (elim exE conjE)
  from r(1) have "r = ?r" by (simp add: always503_def)
  moreover
  from armRequest_exhausted_error[of _ ?r ?v ?e, THEN conjunct2, THEN conjunct2,
        THEN conjunct2, THEN conjunct1, THEN mp, OF d]
  have "shapeArmError ?r = ArmError (JStr ''ServerBusy'') ''try later'' 503"
    by (simp add: getProp_def)
  ultimately have 1: "outcome (armRequest always503)
      = Inl (ArmError (JStr ''ServerBusy'') ''try later'' 503)"
    using r(3) by simp
  from armRequest_exhausted_error[of gatewayThenReset, THEN conjunct2, THEN conjunct2,
        THEN conjunct2, THEN conjunct2, THEN mp, OF b] c
  have "threwBelowHttp (gatewayThenReset 3)" by (elim disjE) simp_all
  then show ?thesis using 1 r(2) b by simp
qed

text \<open>
  As first stated, C10 lets an error other than \<open>ArmError\<close> out only when the final attempt
  threw below the HTTP level. Four responses with status 200 and a body that is not JSON
  raise the \<open>SyntaxError\<close> of \<open>JSON.parse\<close>, while every attempt completed at the HTTP
  level.
\<close>

theorem armRequest_thrown_counterexample:
  "isThrown (outcome (armRequest always200Html))
   \<and> outcome (armRequest always200Html) = Inl (Thrown JsonSyntaxError)
   \<and> fetches (armRequest always200Html) = [0, 1, 2, 3]
   \<and> \<not> threwBelowHttp (always200Html 3)"
  by code_simp

section \<open>Properties of family deduplication\<close>

lemma greaterThanJS_numbers [simp]:
  "greaterThanJS (Some (JNum n)) (Some (JNum m)) \<longleftrightarrow> m < n"
  by (simp add: greaterThanJS_def)

lemma map_of_buildFamilyMap:
  "map_of (buildFamilyMap store ops m) fam = bestOf store fam ops (map_of m fam)"
proof (induction ops arbitrary: m)
  case Nil
  show ?case by simp
next
  case (Cons op ops)
  show ?case
    by (simp add: Cons.IH update_conv' split: option.splits)
qed

lemma distinct_buildFamilyMap:
  "distinct (map fst m) \<Longrightarrow> distinct (map fst (buildFamilyMap store ops m))"
  by (induction ops arbitrary: m) (simp_all add: distinct_update split: option.splits)

lemma familyOps_iff:
  "r \<in> set (map snd (buildFamilyMap store ops [])) \<longleftrightarrow>
   (\<exists>fam. bestOf store fam ops None = Some r)"
proof -
  let ?m = "buildFamilyMap store ops []"
  have d: "distinct (map fst ?m)" by (rule distinct_buildFamilyMap) simp
  have "r \<in> set (map snd ?m) \<longleftrightarrow> (\<exists>fam. (fam, r) \<in> set ?m)" by force
  also have "\<dots> \<longleftrightarrow> (\<exists>fam. map_of ?m fam = Some r)" using d by auto
  also have "\<dots> \<longleftrightarrow> (\<exists>fam. bestOf store fam ops None = Some r)"
    by (simp add: map_of_buildFamilyMap)
  finally show ?thesis .
qed

text \<open>The fold over the members of one family, for revisions that are the numbers
  \<open>rv\<close>.\<close>

lemma bestOf_Some_cases:
  assumes "bestOf store fam ops (Some c) = Some w"
    and "revisionOf (store c) = Some (JNum (rv c))"
    and "\<forall>x \<in> set ops. familyOf store x = Some fam \<longrightarrow> revisionOf (store x) = Some (JNum (rv x))"
  shows "(w = c \<and> (\<forall>x \<in> set ops. familyOf store x = Some fam \<longrightarrow> rv x \<le> rv c))
       \<or> (rv c < rv w \<and> w \<in> set ops
          \<and> familyOf store w = Some fam
          \<and> find (\<lambda>x. familyOf store x = Some fam \<and> rv x = rv w) ops = Some w
          \<and> (\<forall>x \<in> set ops. familyOf store x = Some fam \<longrightarrow> rv x \<le> rv w))"
  using assms
proof (induction ops arbitrary: c)
  case Nil
  then show ?case by simp
next
  case (Cons op ops)
  have rest: "\<forall>x \<in> set ops. familyOf store x = Some fam
                \<longrightarrow> revisionOf (store x) = Some (JNum (rv x))"
    using Cons.prems(3) by simp
  show ?case
  proof (cases "familyOf store op = Some fam \<and> rv op > rv c")
    case True
    then have ro: "revisionOf (store op) = Some (JNum (rv op))" using Cons.prems(3) by simp
    then have "bestOf store fam ops (Some op) = Some w"
      using Cons.prems(1,2) True by simp
    from Cons.IH[OF this ro rest] show ?thesis using True by auto
  next
    case False
    have "bestOf store fam ops (Some c) = Some w"
    proof (cases "familyOf store op = Some fam")
      case True
      then have "revisionOf (store op) = Some (JNum (rv op))" using Cons.prems(3) by simp
      then show ?thesis using Cons.prems(1,2) True False by simp
    next
      case False
      then show ?thesis using Cons.prems(1) by simp
    qed
    from Cons.IH[OF this Cons.prems(2) rest] show ?thesis using False by auto
  qed
qed

lemma bestOf_Some_total: "\<exists>w. bestOf store fam ops (Some c) = Some w"
  by (induction ops arbitrary: c) auto

lemma bestOf_None_start:
  "bestOf store fam ops None = None \<longleftrightarrow> (\<forall>x \<in> set ops. familyOf store x \<noteq> Some fam)"
proof (induction ops)
  case Nil
  show ?case by simp
next
  case (Cons op ops)
  show ?case
  proof (cases "familyOf store op = Some fam")
    case True
    then show ?thesis using bestOf_Some_total[of store fam ops op] by auto
  next
    case False
    then show ?thesis using Cons.IH by simp
  qed
qed

lemma bestOf_winner:
  assumes "bestOf store fam ops None = Some w"
    and "\<forall>x \<in> set ops. familyOf store x = Some fam \<longrightarrow> revisionOf (store x) = Some (JNum (rv x))"
  shows "w \<in> set ops \<and> familyOf store w = Some fam
       \<and> find (\<lambda>x. familyOf store x = Some fam \<and> rv x = rv w) ops = Some w
       \<and> (\<forall>x \<in> set ops. familyOf store x = Some fam \<longrightarrow> rv x \<le> rv w)"
  using assms
proof (induction ops)
  case Nil
  then show ?case by simp
next
  case (Cons op ops)
  have rest: "\<forall>x \<in> set ops. familyOf store x = Some fam
                \<longrightarrow> revisionOf (store x) = Some (JNum (rv x))"
    using Cons.prems(2) by simp
  show ?case
  proof (cases "familyOf store op = Some fam")
    case True
    then have ro: "revisionOf (store op) = Some (JNum (rv op))" using Cons.prems(2) by simp
    have "bestOf store fam ops (Some op) = Some w" using Cons.prems(1) True by simp
    from bestOf_Some_cases[OF this ro rest] show ?thesis using True by auto
  next
    case False
    then have "bestOf store fam ops None = Some w" using Cons.prems(1) by simp
    from Cons.IH[OF this rest] show ?thesis using False by auto
  qed
qed

text \<open>The fold for any revisions: the member kept is followed by no member of the family
  that compares greater.\<close>

lemma bestOf_Some_keeps:
  assumes "bestOf store fam ops (Some c) = Some w"
  shows "(w = c \<and> (\<forall>x \<in> set ops. familyOf store x = Some fam
                      \<longrightarrow> \<not> greaterThanJS (revisionOf (store x)) (revisionOf (store c))))
       \<or> (\<exists>pre post. ops = pre @ w # post \<and> familyOf store w = Some fam
            \<and> (\<forall>x \<in> set post. familyOf store x = Some fam
                  \<longrightarrow> \<not> greaterThanJS (revisionOf (store x)) (revisionOf (store w))))"
  using assms
proof (induction ops arbitrary: c)
  case Nil
  then show ?case by simp
next
  case (Cons op ops)
  show ?case
  proof (cases "familyOf store op = Some fam
                \<and> greaterThanJS (revisionOf (store op)) (revisionOf (store c))")
    case True
    then have "bestOf store fam ops (Some op) = Some w" using Cons.prems by simp
    from Cons.IH[OF this] show ?thesis
    proof (elim disjE conjE exE)
      assume "w = op"
        "\<forall>x \<in> set ops. familyOf store x = Some fam
            \<longrightarrow> \<not> greaterThanJS (revisionOf (store x)) (revisionOf (store op))"
      then have "op # ops = [] @ w # ops \<and> familyOf store w = Some fam
            \<and> (\<forall>x \<in> set ops. familyOf store x = Some fam
                  \<longrightarrow> \<not> greaterThanJS (revisionOf (store x)) (revisionOf (store w)))"
        using True by simp
      then show ?thesis by blast
    next
      fix pre post
      assume "ops = pre @ w # post" "familyOf store w = Some fam"
        "\<forall>x \<in> set post. familyOf store x = Some fam
            \<longrightarrow> \<not> greaterThanJS (revisionOf (store x)) (revisionOf (store w))"
      then have "op # ops = (op # pre) @ w # post \<and> familyOf store w = Some fam
            \<and> (\<forall>x \<in> set post. familyOf store x = Some fam
                  \<longrightarrow> \<not> greaterThanJS (revisionOf (store x)) (revisionOf (store w)))"
        by simp
      then show ?thesis by blast
    qed
  next
    case False
    then have "bestOf store fam ops (Some c) = Some w" using Cons.prems
      by (cases "familyOf store op = Some fam") simp_all
    from Cons.IH[OF this] show ?thesis
    proof (elim disjE conjE exE)
      assume "w = c"
        "\<forall>x \<in> set ops. familyOf store x = Some fam
            \<longrightarrow> \<not> greaterThanJS (revisionOf (store x)) (revisionOf (store c))"
      then show ?thesis using False by auto
    next
      fix pre post
      assume "ops = pre @ w # post" "familyOf store w = Some fam"
        "\<forall>x \<in> set post. familyOf store x = Some fam
            \<longrightarrow> \<not> greaterThanJS (revisionOf (store x)) (revisionOf (store w))"
      then have "op # ops = (op # pre) @ w # post \<and> familyOf store w = Some fam
            \<and> (\<forall>x \<in> set post. familyOf store x = Some fam
                  \<longrightarrow> \<not> greaterThanJS (revisionOf (store x)) (revisionOf (store w)))"
        by simp
      then show ?thesis by blast
    qed
  qed
qed

lemma bestOf_keeps:
  assumes "bestOf store fam ops None = Some w"
  shows "\<exists>pre post. ops = pre @ w # post \<and> familyOf store w = Some fam
            \<and> (\<forall>x \<in> set post. familyOf store x = Some fam
                  \<longrightarrow> \<not> greaterThanJS (revisionOf (store x)) (revisionOf (store w)))"
  using assms
proof (induction ops)
  case Nil
  then show ?case by simp
next
  case (Cons op ops)
  show ?case
  proof (cases "familyOf store op = Some fam")
    case True
    then have "bestOf store fam ops (Some op) = Some w" using Cons.prems by simp
    from bestOf_Some_keeps[OF this] show ?thesis
    proof (elim disjE conjE exE)
      assume "w = op"
        "\<forall>x \<in> set ops. familyOf store x = Some fam
            \<longrightarrow> \<not> greaterThanJS (revisionOf (store x)) (revisionOf (store op))"
      then have "op # ops = [] @ w # ops \<and> familyOf store w = Some fam
            \<and> (\<forall>x \<in> set ops. familyOf store x = Some fam
                  \<longrightarrow> \<not> greaterThanJS (revisionOf (store x)) (revisionOf (store w)))"
        using True by simp
      then show ?thesis by blast
    next
      fix pre post
      assume "ops = pre @ w # post" "familyOf store w = Some fam"
        "\<forall>x \<in> set post. familyOf store x = Some fam
            \<longrightarrow> \<not> greaterThanJS (revisionOf (store x)) (revisionOf (store w))"
      then have "op # ops = (op # pre) @ w # post \<and> familyOf store w = Some fam
            \<and> (\<forall>x \<in> set post. familyOf store x = Some fam
                  \<longrightarrow> \<not> greaterThanJS (revisionOf (store x)) (revisionOf (store w)))"
        by simp
      then show ?thesis by blast
    qed
  next
    case False
    then have "bestOf store fam ops None = Some w" using Cons.prems by simp
    from Cons.IH[OF this] obtain pre post where
      "ops = pre @ w # post" "familyOf store w = Some fam"
      "\<forall>x \<in> set post. familyOf store x = Some fam
          \<longrightarrow> \<not> greaterThanJS (revisionOf (store x)) (revisionOf (store w))"
      by blast
    then have "op # ops = (op # pre) @ w # post \<and> familyOf store w = Some fam
            \<and> (\<forall>x \<in> set post. familyOf store x = Some fam
                  \<longrightarrow> \<not> greaterThanJS (revisionOf (store x)) (revisionOf (store w)))"
      by simp
    then show ?thesis by blast
  qed
qed

lemma deduplicateByFamily_filter:
  "deduplicateByFamily store ops =
     filter (\<lambda>op. case familyOf store op of
                    Some fam \<Rightarrow> bestOf store fam ops None = Some op
                  | None \<Rightarrow> \<not> deprecated (store op)) ops"
proof -
  have "\<And>op fam. familyOf store op = Some fam \<Longrightarrow>
          (op \<in> set (map snd (buildFamilyMap store ops [])) \<longleftrightarrow> bestOf store fam ops None = Some op)"
  proof -
    fix op fam assume f: "familyOf store op = Some fam"
    show "op \<in> set (map snd (buildFamilyMap store ops [])) \<longleftrightarrow> bestOf store fam ops None = Some op"
    proof
      assume "op \<in> set (map snd (buildFamilyMap store ops []))"
      then obtain fam' where b: "bestOf store fam' ops None = Some op"
        unfolding familyOps_iff by blast
      from bestOf_keeps[OF b] f have "fam' = fam" by auto
      then show "bestOf store fam ops None = Some op" using b by simp
    next
      assume "bestOf store fam ops None = Some op"
      then show "op \<in> set (map snd (buildFamilyMap store ops []))"
        unfolding familyOps_iff by blast
    qed
  qed
  then show ?thesis
    unfolding deduplicateByFamily_def Let_def
    by (intro filter_cong refl) (auto split: option.splits)
qed

lemma set_deduplicateByFamily:
  "x \<in> set (deduplicateByFamily store ops) \<longleftrightarrow>
     x \<in> set ops \<and> (case familyOf store x of
                      Some fam \<Rightarrow> bestOf store fam ops None = Some x
                    | None \<Rightarrow> \<not> deprecated (store x))"
  unfolding deduplicateByFamily_filter by simp

lemma filter_eq_singleton:
  assumes "distinct xs" "w \<in> set xs"
  shows "filter (\<lambda>x. x = w) xs = [w]"
  using assms by (induction xs) (auto simp: filter_empty_conv)

lemma family_survivor:
  assumes w: "bestOf store fam ops None = Some w"
  shows "{x \<in> set (deduplicateByFamily store ops). familyOf store x = Some fam} = {w}"
    and "distinct ops \<Longrightarrow>
           length (filter (\<lambda>x. familyOf store x = Some fam) (deduplicateByFamily store ops)) = 1"
proof -
  from bestOf_keeps[OF w] have win: "w \<in> set ops" "familyOf store w = Some fam" by auto
  show "{x \<in> set (deduplicateByFamily store ops). familyOf store x = Some fam} = {w}"
    using w win by (auto simp: set_deduplicateByFamily)
  assume d: "distinct ops"
  have "filter (\<lambda>x. familyOf store x = Some fam) (deduplicateByFamily store ops)
          = filter (\<lambda>x. x = w) ops"
    unfolding deduplicateByFamily_filter filter_filter
    using w win by (intro filter_cong refl) (auto split: option.splits)
  also have "\<dots> = [w]" using d win by (intro filter_eq_singleton) simp_all
  finally show "length (filter (\<lambda>x. familyOf store x = Some fam)
                          (deduplicateByFamily store ops)) = 1"
    by simp
qed

lemma numericRevisions_rv:
  assumes "numericRevisions store ops" "x \<in> set ops" "familyOf store x = Some fam"
  shows "revisionOf (store x)
           = Some (JNum (case revisionOf (store x) of Some (JNum n) \<Rightarrow> n | _ \<Rightarrow> 0))"
proof -
  from assms have "case revisionOf (store x) of Some (JNum n) \<Rightarrow> True | _ \<Rightarrow> False"
    unfolding numericRevisions_def list_all_iff by force
  then show ?thesis by (auto split: option.splits json.splits)
qed

lemma revisionAtMost_numbers:
  "revisionOf x = Some (JNum n) \<Longrightarrow> revisionOf w = Some (JNum m)
   \<Longrightarrow> revisionAtMost x w \<longleftrightarrow> n \<le> m"
  by (simp add: revisionAtMost_def)

lemma familyDedupSpec_deduplicateByFamily:
  assumes num: "numericRevisions store ops"
  shows "familyDedupSpec store ops (deduplicateByFamily store ops)"
proof -
  let ?out = "deduplicateByFamily store ops"
  let ?rv = "\<lambda>x. case revisionOf (store x) of Some (JNum n) \<Rightarrow> n | _ \<Rightarrow> (0::int)"
  have fam_part: "\<exists>w \<in> set ops.
            familyOf store w = Some fam
          \<and> {x \<in> set ?out. familyOf store x = Some fam} = {w}
          \<and> (\<forall>x \<in> set ops. familyOf store x = Some fam
                 \<longrightarrow> revisionAtMost (store x) (store w))
          \<and> find (\<lambda>x. familyOf store x = Some fam
                        \<and> revisionAtMost (store w) (store x)) ops = Some w
          \<and> (distinct ops \<longrightarrow>
                 length (filter (\<lambda>x. familyOf store x = Some fam) ?out) = 1)"
    if op: "op \<in> set ops" "familyOf store op = Some fam" for op fam
  proof -
    have rvs: "\<forall>x \<in> set ops. familyOf store x = Some fam
                 \<longrightarrow> revisionOf (store x) = Some (JNum (?rv x))"
      using numericRevisions_rv[OF num] by blast
    from op have "bestOf store fam ops None \<noteq> None" using bestOf_None_start by blast
    then obtain w where w: "bestOf store fam ops None = Some w" by blast
    from bestOf_winner[OF w rvs]
    have win: "w \<in> set ops" "familyOf store w = Some fam"
      "find (\<lambda>x. familyOf store x = Some fam \<and> ?rv x = ?rv w) ops = Some w"
      "\<forall>x \<in> set ops. familyOf store x = Some fam \<longrightarrow> ?rv x \<le> ?rv w"
      by blast+
    have rw: "revisionOf (store w) = Some (JNum (?rv w))" using rvs win(1,2) by blast
    have le: "\<forall>x \<in> set ops. familyOf store x = Some fam
                 \<longrightarrow> revisionAtMost (store x) (store w)"
    proof (intro ballI impI)
      fix x assume x: "x \<in> set ops" "familyOf store x = Some fam"
      then have "revisionOf (store x) = Some (JNum (?rv x))" using rvs by blast
      from revisionAtMost_numbers[OF this rw] win(4) x show "revisionAtMost (store x) (store w)"
        by blast
    qed
    have "find (\<lambda>x. familyOf store x = Some fam \<and> revisionAtMost (store w) (store x)) ops
            = find (\<lambda>x. familyOf store x = Some fam \<and> ?rv x = ?rv w) ops"
    proof (rule find_cong[OF refl])
      fix x assume x: "x \<in> set ops"
      show "(familyOf store x = Some fam \<and> revisionAtMost (store w) (store x))
              = (familyOf store x = Some fam \<and> ?rv x = ?rv w)"
      proof (cases "familyOf store x = Some fam")
        case True
        then have rx: "revisionOf (store x) = Some (JNum (?rv x))" using rvs x by blast
        have "?rv x \<le> ?rv w" using win(4) x True by blast
        then show ?thesis using revisionAtMost_numbers[OF rw rx] True by auto
      next
        case False
        then show ?thesis by simp
      qed
    qed
    then have fi: "find (\<lambda>x. familyOf store x = Some fam
                        \<and> revisionAtMost (store w) (store x)) ops = Some w"
      using win(3) by simp
    from family_survivor[OF w] win le fi show ?thesis by blast
  qed
  have nofam_part: "op \<in> set ?out \<longleftrightarrow> \<not> deprecated (store op)"
    if "op \<in> set ops" "familyOf store op = None" for op
    using that by (simp add: set_deduplicateByFamily)
  have order_part: "?out = filter (\<lambda>op. op \<in> set ?out) ops"
    unfolding deduplicateByFamily_filter by (intro filter_cong refl) simp
  show ?thesis
    unfolding familyDedupSpec_def
    using fam_part nofam_part order_part by blast
qed

lemma familyKeepSpec_deduplicateByFamily:
  "familyKeepSpec store ops (deduplicateByFamily store ops)"
proof -
  let ?out = "deduplicateByFamily store ops"
  have fam_part: "\<exists>w pre post.
            ops = pre @ w # post
          \<and> familyOf store w = Some fam
          \<and> {x \<in> set ?out. familyOf store x = Some fam} = {w}
          \<and> (\<forall>x \<in> set post. familyOf store x = Some fam
                 \<longrightarrow> \<not> greaterThanJS (revisionOf (store x)) (revisionOf (store w)))
          \<and> (distinct ops \<longrightarrow>
                 length (filter (\<lambda>x. familyOf store x = Some fam) ?out) = 1)"
    if op: "op \<in> set ops" "familyOf store op = Some fam" for op fam
  proof -
    from op have "bestOf store fam ops None \<noteq> None" using bestOf_None_start by blast
    then obtain w where w: "bestOf store fam ops None = Some w" by blast
    from bestOf_keeps[OF w] obtain pre post where
      k: "ops = pre @ w # post" "familyOf store w = Some fam"
         "\<forall>x \<in> set post. familyOf store x = Some fam
             \<longrightarrow> \<not> greaterThanJS (revisionOf (store x)) (revisionOf (store w))"
      by blast
    from family_survivor[OF w] k show ?thesis by blast
  qed
  have nofam_part: "op \<in> set ?out \<longleftrightarrow> \<not> deprecated (store op)"
    if "op \<in> set ops" "familyOf store op = None" for op
    using that by (simp add: set_deduplicateByFamily)
  have order_part: "?out = filter (\<lambda>op. op \<in> set ?out) ops"
    unfolding deduplicateByFamily_filter by (intro filter_cong refl) simp
  show ?thesis
    unfolding familyKeepSpec_def
    using fam_part nofam_part order_part by blast
qed

lemma filterOperations_own_input:
  "(op \<in> set ops \<and> familyOf store op = None \<longrightarrow>
      (op \<in> set (filterOperations store ops)
         \<longleftrightarrow> passesFilters (store op) \<and> \<not> deprecated (store op)))
   \<and> set (filterOperations store ops) \<subseteq> {op \<in> set ops. passesFilters (store op)}
   \<and> filterOperations store ops = filter (\<lambda>op. op \<in> set (filterOperations store ops)) ops"
proof -
  let ?f = "filter (\<lambda>op. passesFilters (store op)) ops"
  have e: "filterOperations store ops = deduplicateByFamily store ?f"
    by (simp add: filterOperations_def)
  have a: "op \<in> set ops \<and> familyOf store op = None \<longrightarrow>
      (op \<in> set (filterOperations store ops)
         \<longleftrightarrow> passesFilters (store op) \<and> \<not> deprecated (store op))"
    unfolding e by (auto simp: set_deduplicateByFamily)
  have b: "set (filterOperations store ops) \<subseteq> {op \<in> set ops. passesFilters (store op)}"
    unfolding e by (auto simp: set_deduplicateByFamily)
  have "deduplicateByFamily store ?f = filter (\<lambda>op. op \<in> set (deduplicateByFamily store ?f)) ?f"
    unfolding deduplicateByFamily_filter by (intro filter_cong refl) simp
  also have "\<dots> = filter (\<lambda>op. op \<in> set (deduplicateByFamily store ?f)) ops"
    unfolding filter_filter
    by (intro filter_cong refl) (auto simp: set_deduplicateByFamily)
  finally have c: "filterOperations store ops
                     = filter (\<lambda>op. op \<in> set (filterOperations store ops)) ops"
    unfolding e .
  from a b c show ?thesis by blast
qed

text \<open>
  Claim C2 (amended). When every input operation that carries a family has a number as
  its revision, the output of \<open>deduplicateByFamily\<close> satisfies the family deduplication
  property: of every family exactly one member is in the output, it has the maximum
  revision among the input members of the family and is the first with that revision, an
  operation without a family is in the output iff it is not deprecated, and the survivors
  are in input order. For any revisions at all, exactly one member of every family is in
  the output and no later member of the family compares greater than it, and the
  operations without a family and the order are as stated. \<open>filterOperations\<close> is
  \<open>deduplicateByFamily\<close> on the operations that pass its three filters: the property holds
  of its output with respect to those operations, an operation of its own input without a
  family is in the output iff it passes the filters and is not deprecated, and the
  output is in the order of its own input.
\<close>

theorem family_deduplication:
  "(numericRevisions store ops \<longrightarrow> familyDedupSpec store ops (deduplicateByFamily store ops))
   \<and> familyKeepSpec store ops (deduplicateByFamily store ops)
   \<and> filterOperations store ops
       = deduplicateByFamily store (filter (\<lambda>op. passesFilters (store op)) ops)
   \<and> (numericRevisions store (filter (\<lambda>op. passesFilters (store op)) ops) \<longrightarrow>
        familyDedupSpec store (filter (\<lambda>op. passesFilters (store op)) ops)
          (filterOperations store ops))
   \<and> (op \<in> set ops \<and> familyOf store op = None \<longrightarrow>
        (op \<in> set (filterOperations store ops)
           \<longleftrightarrow> passesFilters (store op) \<and> \<not> deprecated (store op)))
   \<and> filterOperations store ops = filter (\<lambda>op. op \<in> set (filterOperations store ops)) ops"
proof -
  have e: "filterOperations store ops
       = deduplicateByFamily store (filter (\<lambda>op. passesFilters (store op)) ops)"
    by (simp add: filterOperations_def)
  have a: "numericRevisions store ops \<longrightarrow> familyDedupSpec store ops (deduplicateByFamily store ops)"
    using familyDedupSpec_deduplicateByFamily by blast
  have b: "numericRevisions store (filter (\<lambda>op. passesFilters (store op)) ops) \<longrightarrow>
        familyDedupSpec store (filter (\<lambda>op. passesFilters (store op)) ops)
          (filterOperations store ops)"
    unfolding e using familyDedupSpec_deduplicateByFamily by blast
  note c = filterOperations_own_input[of op ops store]
  from a b c e familyKeepSpec_deduplicateByFamily[of store ops] show ?thesis by blast
qed

theorem family_deduplication_witness:
  "numericRevisions demoStore [0, 1, 2, 3, 4]
   \<and> filterOperations demoStore [0, 1, 2, 3, 4] = [1, 2]
   \<and> {x \<in> set (filterOperations demoStore [0, 1, 2, 3, 4]).
         familyOf demoStore x = Some (PrimitiveKey (JStr ''DeleteMessage''))} = {1}
   \<and> revisionAtMost (demoStore 0) (demoStore 1)"
proof -
  let ?fam = "PrimitiveKey (JStr ''DeleteMessage'')"
  have out: "filterOperations demoStore [0, 1, 2, 3, 4] = [1, 2]" by code_simp
  have inp: "filter (\<lambda>op. passesFilters (demoStore op)) [0, 1, 2, 3, 4] = [0, 1, 2, 3]"
    by code_simp
  have num: "numericRevisions demoStore [0, 1, 2, 3, 4]" by code_simp
  have num': "numericRevisions demoStore [0, 1, 2, 3]" by code_simp
  have f0: "familyOf demoStore 0 = Some ?fam" by code_simp
  have f1: "familyOf demoStore 1 = Some ?fam" by code_simp
  from family_deduplication[of demoStore "[0, 1, 2, 3, 4]"] num'
  have spec: "familyDedupSpec demoStore [0, 1, 2, 3] [1, 2]"
    unfolding out inp by blast
  then have a: "\<forall>op \<in> set [0, 1, 2, 3]. \<forall>fam. familyOf demoStore op = Some fam \<longrightarrow>
        (\<exists>w \<in> set [0, 1, 2, 3].
            familyOf demoStore w = Some fam
          \<and> {x \<in> set [1, 2]. familyOf demoStore x = Some fam} = {w}
          \<and> (\<forall>x \<in> set [0, 1, 2, 3]. familyOf demoStore x = Some fam
                 \<longrightarrow> revisionAtMost (demoStore x) (demoStore w))
          \<and> find (\<lambda>x. familyOf demoStore x = Some fam
                        \<and> revisionAtMost (demoStore w) (demoStore x)) [0, 1, 2, 3] = Some w
          \<and> (distinct [0, 1, 2, 3::nat] \<longrightarrow>
                 length (filter (\<lambda>x. familyOf demoStore x = Some fam) [1, 2]) = 1))"
    unfolding familyDedupSpec_def by (rule conjunct1)
  have "(0::nat) \<in> set [0, 1, 2, 3]" by simp
  from a[rule_format, OF this f0]
  obtain w where w: "w \<in> set [0, 1, 2, 3::nat]"
      "{x \<in> set [1, 2]. familyOf demoStore x = Some ?fam} = {w}"
      "\<forall>x \<in> set [0, 1, 2, 3]. familyOf demoStore x = Some ?fam
          \<longrightarrow> revisionAtMost (demoStore x) (demoStore w)"
    by blast
  have "1 \<in> {x \<in> set [1, 2]. familyOf demoStore x = Some ?fam}"
    using f1 by simp
  then have "1 \<in> {w}" unfolding w(2) .
  then have "w = 1" by simp
  moreover have "(0::nat) \<in> set [0, 1, 2, 3]" by simp
  ultimately have "revisionAtMost (demoStore 0) (demoStore 1)" using w(3) f0 by blast
  then show ?thesis using w(2) \<open>w = 1\<close> out num by simp
qed

lemma unrevised_not_familyDedupSpec:
  "\<not> familyDedupSpec unrevisedStore [0, 1] (deduplicateByFamily unrevisedStore [0, 1])"
proof
  assume a: "familyDedupSpec unrevisedStore [0, 1] (deduplicateByFamily unrevisedStore [0, 1])"
  have out: "deduplicateByFamily unrevisedStore [0, 1] = [0]" by code_simp
  have f0: "familyOf unrevisedStore 0 = Some (PrimitiveKey (JStr ''Ops''))" by code_simp
  have f1: "familyOf unrevisedStore 1 = Some (PrimitiveKey (JStr ''Ops''))" by code_simp
  have r: "\<not> revisionAtMost (unrevisedStore 1) (unrevisedStore 0)" by code_simp
  from a[unfolded familyDedupSpec_def out, THEN conjunct1, rule_format, of 0, OF _ f0]
  obtain w where w: "{x \<in> set [0::nat]. familyOf unrevisedStore x = Some (PrimitiveKey (JStr ''Ops''))} = {w}"
    "\<forall>x \<in> set [0, 1]. familyOf unrevisedStore x = Some (PrimitiveKey (JStr ''Ops''))
         \<longrightarrow> revisionAtMost (unrevisedStore x) (unrevisedStore w)"
    by auto
  have "0 \<in> {x \<in> set [0::nat]. familyOf unrevisedStore x = Some (PrimitiveKey (JStr ''Ops''))}"
    using f0 by simp
  then have "w = 0" unfolding w(1) by simp
  then show False using w(2) f1 r by simp
qed

lemma internalLatest_not_familyDedupSpec:
  "\<not> familyDedupSpec internalLatestStore [0, 1, 2] (filterOperations internalLatestStore [0, 1, 2])"
proof
  assume a: "familyDedupSpec internalLatestStore [0, 1, 2] (filterOperations internalLatestStore [0, 1, 2])"
  have out: "filterOperations internalLatestStore [0, 1, 2] = [0]" by code_simp
  have f2: "familyOf internalLatestStore 2 = None" by code_simp
  have d: "\<not> deprecated (internalLatestStore 2)" by code_simp
  from a[unfolded familyDedupSpec_def out, THEN conjunct2, THEN conjunct1, rule_format, of 2, OF _ f2]
  have "(2::nat) \<in> set [0] \<longleftrightarrow> \<not> deprecated (internalLatestStore 2)" by simp
  then show False using d by simp
qed

text \<open>
  As first stated, C2 promises the member with the maximum revision for every list of
  operations, of \<open>filterOperations\<close> as of \<open>deduplicateByFamily\<close>. The parser copies
  the revision unchecked: of two operations of one family of which the first has no
  revision and the second has revision 2, the first is kept, since \<open>2 > undefined\<close> is
  false. And \<open>filterOperations\<close> drops an internal operation before it looks at
  families: of a family whose revision 2 is internal the member with revision 1 is kept,
  and an internal operation without a family is dropped although it is not deprecated.
\<close>

theorem family_deduplication_counterexample:
  "deduplicateByFamily unrevisedStore [0, 1] = [0]
   \<and> familyOf unrevisedStore 0 = Some (PrimitiveKey (JStr ''Ops''))
   \<and> familyOf unrevisedStore 1 = Some (PrimitiveKey (JStr ''Ops''))
   \<and> revisionOf (unrevisedStore 0) = None
   \<and> revisionOf (unrevisedStore 1) = Some (JNum 2)
   \<and> \<not> revisionAtMost (unrevisedStore 1) (unrevisedStore 0)
   \<and> map_sum id (\<lambda>ops. map operationId (filterParsed ops))
        (parseOpenApiSpec unrevisedSwagger ''demo'') = Inr [''OpA'']
   \<and> filterOperations internalLatestStore [0, 1, 2] = [0]
   \<and> familyOf internalLatestStore 0 = familyOf internalLatestStore 1
   \<and> revisionOf (internalLatestStore 0) = Some (JNum 1)
   \<and> revisionOf (internalLatestStore 1) = Some (JNum 2)
   \<and> \<not> revisionAtMost (internalLatestStore 1) (internalLatestStore 0)
   \<and> familyOf internalLatestStore 2 = None
   \<and> \<not> deprecated (internalLatestStore 2)
   \<and> 2 \<notin> set (filterOperations internalLatestStore [0, 1, 2])
   \<and> \<not> familyDedupSpec unrevisedStore [0, 1] (deduplicateByFamily unrevisedStore [0, 1])
   \<and> \<not> familyDedupSpec internalLatestStore [0, 1, 2]
         (filterOperations internalLatestStore [0, 1, 2])"
proof -
  have "deduplicateByFamily unrevisedStore [0, 1] = [0]
   \<and> familyOf unrevisedStore 0 = Some (PrimitiveKey (JStr ''Ops''))
   \<and> familyOf unrevisedStore 1 = Some (PrimitiveKey (JStr ''Ops''))
   \<and> revisionOf (unrevisedStore 0) = None
   \<and> revisionOf (unrevisedStore 1) = Some (JNum 2)
   \<and> \<not> revisionAtMost (unrevisedStore 1) (unrevisedStore 0)
   \<and> map_sum id (\<lambda>ops. map operationId (filterParsed ops))
        (parseOpenApiSpec unrevisedSwagger ''demo'') = Inr [''OpA'']
   \<and> filterOperations internalLatestStore [0, 1, 2] = [0]
   \<and> familyOf internalLatestStore 0 = familyOf internalLatestStore 1
   \<and> revisionOf (internalLatestStore 0) = Some (JNum 1)
   \<and> revisionOf (internalLatestStore 1) = Some (JNum 2)
   \<and> \<not> revisionAtMost (internalLatestStore 1) (internalLatestStore 0)
   \<and> familyOf internalLatestStore 2 = None
   \<and> \<not> deprecated (internalLatestStore 2)
   \<and> 2 \<notin> set (filterOperations internalLatestStore [0, 1, 2])"
    by code_simp
  then show ?thesis
    using unrevised_not_familyDedupSpec internalLatest_not_familyDedupSpec by blast
qed

lemma greaterThanJS_examples:
  "\<not> greaterThanJS (Some (JNum 2)) None
   \<and> \<not> greaterThanJS None (Some (JNum 2))
   \<and> greaterThanJS (Some (JStr ''10'')) (Some (JNum 9))
   \<and> greaterThanJS (Some (JStr ''9'')) (Some (JStr ''10''))
   \<and> \<not> greaterThanJS (Some (JStr ''v2'')) (Some (JNum 1))
   \<and> greaterThanJS (Some (JStr '' 1.5e1 '')) (Some (JNum 14))
   \<and> greaterThanJS (Some (JStr ''0x10'')) (Some (JNum 15))
   \<and> greaterThanJS (Some (JNum 1)) (Some JNull)
   \<and> greaterThanJS (Some (JBool True)) (Some (JNum 0))
   \<and> greaterThanJS (Some (JArr [JNum 3])) (Some (JNum 2))
   \<and> \<not> greaterThanJS (Some (JObj [])) (Some (JNum 2))
   \<and> greaterThanJS (Some (JStr ''Infinity'')) (Some (JNum 2))
   \<and> \<not> greaterThanJS (Some (JStr ''-Infinity'')) (Some (JNum 2))
   \<and> \<not> greaterThanJS (Some (JStr ''1.'')) (Some (JNum 1))
   \<and> greaterThanJS (Some (JStr ''.5'')) (Some (JNum 0))
   \<and> \<not> greaterThanJS (Some (JStr ''-0x10'')) (Some (JNum (- 100)))
   \<and> greaterThanJS (Some (JNum 1)) (Some (JStr ''''))"
  by code_simp

section \<open>Properties of the tool registry\<close>

lemma extendsRegistry_iff:
  "extendsRegistry s s' \<longleftrightarrow>
     (\<exists>added. toolRegistry s' = toolRegistry s @ added \<and> list_all wellNamed added)"
proof
  assume "extendsRegistry s s'"
  then have "toolRegistry s' = toolRegistry s @ drop (length (toolRegistry s)) (toolRegistry s')"
    and "list_all wellNamed (drop (length (toolRegistry s)) (toolRegistry s'))"
    unfolding extendsRegistry_def by (metis append_take_drop_id, blast)
  then show "\<exists>added. toolRegistry s' = toolRegistry s @ added \<and> list_all wellNamed added"
    by blast
next
  assume "\<exists>added. toolRegistry s' = toolRegistry s @ added \<and> list_all wellNamed added"
  then show "extendsRegistry s s'" unfolding extendsRegistry_def by auto
qed

lemma extendsRegistry_refl: "extendsRegistry s s"
  unfolding extendsRegistry_def by simp

lemma extendsRegistry_same: "toolRegistry s' = toolRegistry s \<Longrightarrow> extendsRegistry s s'"
  unfolding extendsRegistry_def by simp

lemma extendsRegistry_trans:
  "extendsRegistry s s' \<Longrightarrow> extendsRegistry s' s'' \<Longrightarrow> extendsRegistry s s''"
  unfolding extendsRegistry_iff by auto

lemma extendsRegistry_cong:
  "toolRegistry t = toolRegistry s \<Longrightarrow> toolRegistry t' = toolRegistry s'
   \<Longrightarrow> extendsRegistry s s' \<Longrightarrow> extendsRegistry t t'"
  unfolding extendsRegistry_def by simp


lemma update_fresh: "map_of al k = None \<Longrightarrow> AList.update k v al = al @ [(k, v)]"
  by (induction al) (auto split: if_splits)

lemma toolRegistry_logLine [simp]: "toolRegistry (logLine l s) = toolRegistry s"
  by (simp add: logLine_def)

lemma notifications_logLine [simp]: "notifications (logLine l s) = notifications s"
  by (simp add: logLine_def)

lemma schemaCache_logLine [simp]: "schemaCache (logLine l s) = schemaCache s"
  by (simp add: logLine_def)

lemma armCalls_logLine [simp]: "armCalls (logLine l s) = armCalls s"
  by (simp add: logLine_def)

lemma serverTools_logLine [simp]: "serverTools (logLine l s) = serverTools s"
  by (simp add: logLine_def)

lemma registerOps_effect:
  "registerOps conn ops st s = (st', s') \<Longrightarrow>
   (\<exists>added. toolRegistry s' = toolRegistry s @ added
      \<and> list_all (\<lambda>(k, v). connection v = conn
                     \<and> k = buildToolName (apiName conn) (operationId (operation v))) added
      \<and> registered st' = registered st + length added)
   \<and> schemaCache s' = schemaCache s \<and> notifications s' = notifications s
   \<and> armCalls s' = armCalls s \<and> logs s' = logs s"
proof (induction ops arbitrary: st s)
  case Nil
  then show ?case by simp
next
  case (Cons op ops)
  let ?name = "buildToolName (apiName conn) (operationId op)"
  show ?case
  proof (cases "map_of (toolRegistry s) ?name")
    case (Some a)
    then have "registerOps conn ops (st\<lparr>skipped := skipped st + 1\<rparr>) s = (st', s')"
      using Cons.prems by (simp add: Let_def)
    from Cons.IH[OF this] show ?thesis by simp
  next
    case None
    let ?s1 = "s\<lparr>serverTools := serverTools s @ [?name],
                 toolRegistry := AList.update ?name \<lparr>connection = conn, operation = op\<rparr>
                                   (toolRegistry s)\<rparr>"
    have reg: "toolRegistry ?s1 = toolRegistry s @ [(?name, \<lparr>connection = conn, operation = op\<rparr>)]"
      using None by (simp add: update_fresh)
    have "registerOps conn ops (st\<lparr>registered := registered st + 1\<rparr>) ?s1 = (st', s')"
      using Cons.prems None by (simp add: Let_def)
    from Cons.IH[OF this] obtain added where
      a: "toolRegistry s' = toolRegistry ?s1 @ added"
         "list_all (\<lambda>(k, v). connection v = conn
                     \<and> k = buildToolName (apiName conn) (operationId (operation v))) added"
         "registered st' = registered st + 1 + length added"
      and f: "schemaCache s' = schemaCache s" "notifications s' = notifications s"
         "armCalls s' = armCalls s" "logs s' = logs s"
      by auto
    have "toolRegistry s' = toolRegistry s @ ((?name, \<lparr>connection = conn, operation = op\<rparr>) # added)"
      using a(1) reg by simp
    moreover have "list_all (\<lambda>(k, v). connection v = conn
                     \<and> k = buildToolName (apiName conn) (operationId (operation v)))
                     ((?name, \<lparr>connection = conn, operation = op\<rparr>) # added)"
      using a(2) by simp
    moreover have "registered st' = registered st
                     + length ((?name, \<lparr>connection = conn, operation = op\<rparr>) # added)"
      using a(3) by simp
    ultimately show ?thesis using f by blast
  qed
qed

lemma wellNamed_of_conn:
  "list_all (\<lambda>(k, v). connection v = conn
                     \<and> k = buildToolName (apiName conn) (operationId (operation v))) added
   \<Longrightarrow> list_all wellNamed added"
  by (induction added) (auto simp: wellNamed_def)

lemma registerOps_extends:
  "registerOps conn ops st s = (st', s') \<Longrightarrow> extendsRegistry s s'"
  unfolding extendsRegistry_iff using registerOps_effect wellNamed_of_conn by blast

lemma fetchApiSchema_frame:
  "fetchApiSchema env api ctx s = (res, s') \<Longrightarrow>
   toolRegistry s' = toolRegistry s \<and> notifications s' = notifications s
   \<and> serverTools s' = serverTools s"
  by (auto simp: fetchApiSchema_def callArm_def Let_def split: option.splits sum.splits if_splits)

lemma compileAndRegister_effect:
  assumes "compileAndRegister conn swagger s = (res, s')"
  shows "extendsRegistry s s' \<and> notifications s' = notifications s
         \<and> schemaCache s' = schemaCache s \<and> armCalls s' = armCalls s"
proof (cases "parseOpenApiSpec swagger (apiName conn)")
  case (Inl e)
  then show ?thesis using assms by (simp add: compileAndRegister_def extendsRegistry_refl)
next
  case (Inr allOps)
  let ?s1 = "logLine (LogInfo (''Parsed '' @ showNat (length allOps)
                                       @ '' operations from '' @ apiName conn)) s"
  obtain stats s2 where r: "registerOps conn (filterParsed allOps) \<lparr>registered = 0, skipped = 0\<rparr> ?s1
                             = (stats, s2)" by (cases "registerOps conn (filterParsed allOps) \<lparr>registered = 0, skipped = 0\<rparr> ?s1")
  then have "s' = s2" using assms Inr by (simp add: compileAndRegister_def Let_def)
  moreover have "extendsRegistry s s2"
    using registerOps_extends[OF r] by (rule extendsRegistry_cong[rotated 2]) simp_all
  moreover have "notifications s2 = notifications s" "schemaCache s2 = schemaCache s"
      "armCalls s2 = armCalls s"
    using registerOps_effect[OF r] by simp_all
  ultimately show ?thesis by simp
qed

lemma tryConnection_effect:
  assumes "tryConnection env ctx c s = (res, s')"
  shows "extendsRegistry s s' \<and> notifications s' = notifications s"
proof (cases "extractConnectionInfo c")
  case (Inl e)
  then show ?thesis using assms by (simp add: tryConnection_def extendsRegistry_refl)
next
  case (Inr conn)
  obtain r s1 where f: "fetchApiSchema env (apiName conn) ctx s = (r, s1)"
    by (cases "fetchApiSchema env (apiName conn) ctx s")
  note fr = fetchApiSchema_frame[OF f]
  show ?thesis
  proof (cases r)
    case (Inl e)
    then have "s' = s1" using assms Inr f by (simp add: tryConnection_def)
    then show ?thesis using fr by (simp add: extendsRegistry_same)
  next
    case swag: (Inr swagger)
    show ?thesis
    proof (cases "truthy swagger")
      case False
      then have "s' = logLine (LogWarn (''No swagger for '' @ apiName conn @ '', skipping'')) s1"
        using assms Inr f swag by (simp add: tryConnection_def)
      then show ?thesis using fr by (simp add: extendsRegistry_same)
    next
      case True
      obtain r2 s2 where c: "compileAndRegister conn swagger s1 = (r2, s2)"
        by (cases "compileAndRegister conn swagger s1")
      then have "s' = s2" using assms Inr f swag True
        by (auto simp: tryConnection_def split: sum.splits)
      moreover have "extendsRegistry s s2"
        using compileAndRegister_effect[OF c] fr
        by (meson extendsRegistry_same extendsRegistry_trans)
      moreover have "notifications s2 = notifications s"
        using compileAndRegister_effect[OF c] fr by simp
      ultimately show ?thesis by simp
    qed
  qed
qed

lemma scanConnections_effect:
  "scanConnections env ctx cs tally s = (res, s') \<Longrightarrow>
   extendsRegistry s s' \<and> notifications s' = notifications s"
proof (induction cs arbitrary: tally s)
  case Nil
  then show ?case by (simp add: extendsRegistry_refl)
next
  case (Cons c cs)
  obtain r s1 where t: "tryConnection env ctx c s = (r, s1)"
    by (cases "tryConnection env ctx c s")
  note te = tryConnection_effect[OF t]
  show ?case
  proof (cases r)
    case (Inl err)
    show ?thesis
    proof (cases "c = JNull")
      case True
      then have "s' = s1" using Cons.prems t Inl by simp
      then show ?thesis using te by simp
    next
      case False
      let ?s2 = "logLine (LogError (''Error registering tools for connection ''
                                      @ asString (getProp c ''name'') @ '': '') err) s1"
      have "scanConnections env ctx cs (tally\<lparr>tallyErrors := tallyErrors tally + 1\<rparr>) ?s2 = (res, s')"
        using Cons.prems t Inl False by simp
      from Cons.IH[OF this] have "extendsRegistry ?s2 s'" "notifications s' = notifications s1"
        by simp_all
      moreover have "extendsRegistry s ?s2"
        using te by (meson extendsRegistry_same extendsRegistry_trans toolRegistry_logLine)
      ultimately show ?thesis using te extendsRegistry_trans by auto
    qed
  next
    case (Inr so)
    show ?thesis
    proof (cases so)
      case None
      then have "scanConnections env ctx cs tally s1 = (res, s')"
        using Cons.prems t Inr by simp
      from Cons.IH[OF this] show ?thesis using te extendsRegistry_trans by auto
    next
      case (Some stats)
      then have "scanConnections env ctx cs
            (tally\<lparr>tallyRegistered := tallyRegistered tally + registered stats,
                   tallySkipped := tallySkipped tally + skipped stats\<rparr>) s1 = (res, s')"
        using Cons.prems t Inr by simp
      from Cons.IH[OF this] show ?thesis using te extendsRegistry_trans by auto
    qed
  qed
qed

lemma callArm_frame:
  "callArm env call s = (res, s') \<Longrightarrow>
   toolRegistry s' = toolRegistry s \<and> notifications s' = notifications s
   \<and> schemaCache s' = schemaCache s"
  by (auto simp: callArm_def)

lemma registerDynamicTools_effect:
  assumes "registerDynamicTools env tokenProvider ctx s = (res, s')"
  shows "extendsRegistry s s' \<and> notifications s' = notifications s"
proof (cases tokenProvider)
  case (Inl e)
  then show ?thesis using assms by (simp add: registerDynamicTools_def extendsRegistry_refl)
next
  case (Inr token)
  let ?call = "\<lparr>callMethod = ''GET'', callPath = connectionsPath ctx,
                 callQuery = [], callBody = None\<rparr>"
  obtain r s1 where c: "callArm env ?call s = (r, s1)" by (cases "callArm env ?call s")
  note cf = callArm_frame[OF c]
  have base: "extendsRegistry s s1" using cf by (simp add: extendsRegistry_same)
  show ?thesis
  proof (cases r)
    case (Inl e)
    then have "s' = s1" using assms Inr c by (simp add: registerDynamicTools_def)
    then show ?thesis using base cf by simp
  next
    case res: (Inr connResult)
    show ?thesis
    proof (cases "connResult = JNull")
      case True
      then have "s' = s1" using assms Inr c res by (simp add: registerDynamicTools_def)
      then show ?thesis using base cf by simp
    next
      case False
      show ?thesis
      proof (cases "iterateOrEmpty (getProp connResult ''value'')")
        case (Inl e)
        then have "s' = s1" using assms Inr c res False by (simp add: registerDynamicTools_def)
        then show ?thesis using base cf by simp
      next
        case conns: (Inr connections)
        obtain r2 s2 where sc: "scanConnections env ctx connections
              \<lparr>tallyRegistered = 0, tallySkipped = 0, tallyErrors = 0\<rparr> s1 = (r2, s2)"
          by (cases "scanConnections env ctx connections
              \<lparr>tallyRegistered = 0, tallySkipped = 0, tallyErrors = 0\<rparr> s1")
        note se = scanConnections_effect[OF sc]
        have "toolRegistry s' = toolRegistry s2 \<and> notifications s' = notifications s2"
          using assms Inr c res False conns sc
          by (auto simp: registerDynamicTools_def split: sum.splits)
        then show ?thesis using se base cf
          by (metis extendsRegistry_cong extendsRegistry_trans)
      qed
    qed
  qed
qed

lemma toolRegistry_clearSchemaCache [simp]: "toolRegistry (clearSchemaCache s) = toolRegistry s"
  by (simp add: clearSchemaCache_def)

lemma notifications_clearSchemaCache [simp]: "notifications (clearSchemaCache s) = notifications s"
  by (simp add: clearSchemaCache_def)

lemma refresh_tools_effect:
  assumes "refresh_tools env tokenProvider ctx s = (reply, s')"
  shows "extendsRegistry s s' \<and> notifications s' = notifications s"
proof -
  obtain r s1 where d: "registerDynamicTools env tokenProvider ctx (clearSchemaCache s) = (r, s1)"
    by (cases "registerDynamicTools env tokenProvider ctx (clearSchemaCache s)")
  note de = registerDynamicTools_effect[OF d]
  have "toolRegistry s' = toolRegistry s1 \<and> notifications s' = notifications s1"
    using assms d by (auto simp: refresh_tools_def split: sum.splits)
  moreover have "extendsRegistry s s1"
    using de unfolding extendsRegistry_def by simp
  ultimately show ?thesis using de unfolding extendsRegistry_def by simp
qed

lemma map_of_append_Some: "map_of al k = Some v \<Longrightarrow> map_of (al @ bl) k = Some v"
  by (simp add: map_add_Some_iff)

text \<open>
  Claim C8. \<open>refresh_tools\<close> clears the schema cache and never the registry: the entries
  of the registry before the refresh are the first entries after it, unchanged, so every
  key still maps to its value; what the refresh adds comes after them. The schema cache
  is cleared: the refresh runs as it does from an empty schema cache, whatever the cache
  held before.
\<close>

theorem refresh_tools_keeps_registry:
  "(refresh_tools env tokenProvider ctx s = (reply, s') \<longrightarrow>
     (\<exists>added. toolRegistry s' = toolRegistry s @ added)
     \<and> (map_of (toolRegistry s) k = Some v \<longrightarrow> map_of (toolRegistry s') k = Some v)
     \<and> length (toolRegistry s) \<le> length (toolRegistry s'))
   \<and> refresh_tools env tokenProvider ctx s
       = refresh_tools env tokenProvider ctx (s\<lparr>schemaCache := []\<rparr>)"
proof (intro conjI impI)
  assume "refresh_tools env tokenProvider ctx s = (reply, s')"
  from refresh_tools_effect[OF this] obtain added where
    a: "toolRegistry s' = toolRegistry s @ added"
    unfolding extendsRegistry_iff by blast
  from a show "\<exists>added. toolRegistry s' = toolRegistry s @ added" by blast
  {
    assume "map_of (toolRegistry s) k = Some v"
    then show "map_of (toolRegistry s') k = Some v" using a by (simp add: map_of_append_Some)
  }
  from a show "length (toolRegistry s) \<le> length (toolRegistry s')" by simp
next
  show "refresh_tools env tokenProvider ctx s
       = refresh_tools env tokenProvider ctx (s\<lparr>schemaCache := []\<rparr>)"
    by (simp add: refresh_tools_def clearSchemaCache_def)
qed

lemma startsWith_append: "startsWith (p @ rest) p"
  by (induction p) simp_all

lemma startsWith_buildToolName: "startsWith (buildToolName api opId) (api @ ''_'')"
  unfolding buildToolName_def Let_def
  using startsWith_append[of "api @ ''_''"] by simp

lemma hasPrefix_iff:
  "hasPrefix api s \<longleftrightarrow> (\<exists>entry \<in> set (toolRegistry s). startsWith (fst entry) (api @ ''_''))"
  by (auto simp: hasPrefix_def list_ex_iff)

lemma compileAndRegister_count:
  assumes "compileAndRegister conn swagger s = (res, s')"
  shows "\<exists>added. toolRegistry s' = toolRegistry s @ added
           \<and> list_all (\<lambda>(k, v). connection v = conn
                     \<and> k = buildToolName (apiName conn) (operationId (operation v))) added
           \<and> (case res of Inr stats \<Rightarrow> registered stats = length added | Inl e \<Rightarrow> added = [])"
proof (cases "parseOpenApiSpec swagger (apiName conn)")
  case (Inl e)
  then show ?thesis using assms by (auto simp: compileAndRegister_def)
next
  case (Inr allOps)
  let ?s1 = "logLine (LogInfo (''Parsed '' @ showNat (length allOps)
                                       @ '' operations from '' @ apiName conn)) s"
  obtain stats s2 where r: "registerOps conn (filterParsed allOps) \<lparr>registered = 0, skipped = 0\<rparr> ?s1
                             = (stats, s2)" by (cases "registerOps conn (filterParsed allOps) \<lparr>registered = 0, skipped = 0\<rparr> ?s1")
  then have e: "s' = s2" "res = Inr stats" using assms Inr by (simp_all add: compileAndRegister_def Let_def)
  from registerOps_effect[OF r] obtain added where
    "toolRegistry s2 = toolRegistry s @ added"
    "list_all (\<lambda>(k, v). connection v = conn
                     \<and> k = buildToolName (apiName conn) (operationId (operation v))) added"
    "registered stats = length added"
    by auto
  then show ?thesis using e by auto
qed

text \<open>What one incremental registration does, in terms of the entries it adds.\<close>

lemma registerToolsForConnection_effect:
  assumes "registerToolsForConnection env tokenProvider ctx c s = (t, s')"
  shows "\<exists>added. toolRegistry s' = toolRegistry s @ added
           \<and> list_all wellNamed added
           \<and> (\<forall>conn. extractConnectionInfo c = Inr conn \<longrightarrow>
                 list_all (\<lambda>(k, v). k = buildToolName (apiName conn) (operationId (operation v))) added)
           \<and> tallyRegistered t = length added
           \<and> notifications s' = notifications s
                @ (if tallyRegistered t > 0 then [''notifications/tools/list_changed''] else [])"
proof (cases "extractConnectionInfo c")
  case (Inl e)
  then show ?thesis using assms
    by (auto simp: registerToolsForConnection_def incrementalBody_def)
next
  case conn: (Inr conn)
  show ?thesis
  proof (cases "hasPrefix (apiName conn) s")
    case True
    then show ?thesis using assms conn
      by (auto simp: registerToolsForConnection_def incrementalBody_def zeroTally_def)
  next
    case noPrefix: False
    show ?thesis
    proof (cases tokenProvider)
      case (Inl e)
      then show ?thesis using assms conn noPrefix
        by (auto simp: registerToolsForConnection_def incrementalBody_def)
    next
      case tok: (Inr token)
      obtain r s1 where f: "fetchApiSchema env (apiName conn) ctx s = (r, s1)"
        by (cases "fetchApiSchema env (apiName conn) ctx s")
      note fr = fetchApiSchema_frame[OF f]
      show ?thesis
      proof (cases r)
        case (Inl e)
        then show ?thesis using assms conn noPrefix tok f fr
          by (auto simp: registerToolsForConnection_def incrementalBody_def)
      next
        case swag: (Inr swagger)
        show ?thesis
        proof (cases "truthy swagger")
          case False
          then show ?thesis using assms conn noPrefix tok f fr swag
            by (auto simp: registerToolsForConnection_def incrementalBody_def zeroTally_def)
        next
          case True
          obtain r2 s2 where c2: "compileAndRegister conn swagger s1 = (r2, s2)"
            by (cases "compileAndRegister conn swagger s1")
          from compileAndRegister_count[OF c2] obtain added where
            a: "toolRegistry s2 = toolRegistry s1 @ added"
               "list_all (\<lambda>(k, v). connection v = conn
                     \<and> k = buildToolName (apiName conn) (operationId (operation v))) added"
               "(case r2 of Inr stats \<Rightarrow> registered stats = length added | Inl e \<Rightarrow> added = [])"
            by blast
          have wn: "list_all wellNamed added" using a(2) by (rule wellNamed_of_conn)
          have kn: "list_all (\<lambda>(k, v). k = buildToolName (apiName conn) (operationId (operation v))) added"
            using a(2) by (induction added) auto
          note ce = compileAndRegister_effect[OF c2]
          show ?thesis
          proof (cases r2)
            case (Inl e)
            then have "t = \<lparr>tallyRegistered = 0, tallySkipped = 0, tallyErrors = 1\<rparr>"
              "toolRegistry s' = toolRegistry s2" "notifications s' = notifications s2"
              using assms conn noPrefix tok f swag True c2
              by (auto simp: registerToolsForConnection_def incrementalBody_def)
            then show ?thesis using a Inl ce fr by simp
          next
            case (Inr stats)
            then have t: "t = \<lparr>tallyRegistered = registered stats, tallySkipped = skipped stats,
                                tallyErrors = 0\<rparr>"
              and s': "s' = (if registered stats > 0
                             then s2\<lparr>notifications := notifications s2
                                        @ [''notifications/tools/list_changed'']\<rparr>
                             else s2)"
              using assms conn noPrefix tok f swag True c2
              by (simp_all add: registerToolsForConnection_def incrementalBody_def)
            have "toolRegistry s' = toolRegistry s @ added" using s' a(1) fr by simp
            moreover have "tallyRegistered t = length added" using t a(3) Inr by simp
            moreover have "notifications s' = notifications s
                @ (if tallyRegistered t > 0 then [''notifications/tools/list_changed''] else [])"
              using s' t ce fr by simp
            ultimately show ?thesis using wn kn conn by auto
          qed
        qed
      qed
    qed
  qed
qed

lemma registerToolsForConnection_shortcut:
  assumes "extractConnectionInfo c = Inr conn" "hasPrefix (apiName conn) s"
  shows "registerToolsForConnection env tokenProvider ctx c s =
           (zeroTally,
            logLine (LogInfo (''Tools for '' @ apiName conn @ '' already registered, skipping'')) s)"
  using assms by (simp add: registerToolsForConnection_def incrementalBody_def)


lemma registered_gives_prefix:
  assumes "registerToolsForConnection env tokenProvider ctx c s = (t, s')"
    "extractConnectionInfo c = Inr conn" "tallyRegistered t > 0"
  shows "hasPrefix (apiName conn) s'"
proof -
  from registerToolsForConnection_effect[OF assms(1)] assms(2) obtain added where
    a: "toolRegistry s' = toolRegistry s @ added"
       "list_all (\<lambda>(k, v). k = buildToolName (apiName conn) (operationId (operation v))) added"
       "tallyRegistered t = length added"
    by blast
  with assms(3) obtain k v rest where "added = (k, v) # rest" by (cases added) auto
  with a(2) have "k = buildToolName (apiName conn) (operationId (operation v))" by simp
  then have "startsWith k (apiName conn @ ''_'')" by (simp add: startsWith_buildToolName)
  moreover have "(k, v) \<in> set (toolRegistry s')" using a(1) \<open>added = (k, v) # rest\<close> by simp
  ultimately show ?thesis unfolding hasPrefix_iff by force
qed








lemma sendEmail_afterIncremental:
  "map_of (toolRegistry afterIncremental) ''office365_send_email'' \<noteq> None
   \<and> length (toolRegistry afterIncremental) = 2
   \<and> length (toolRegistry afterRefresh) = 4"
  by code_simp

theorem refresh_tools_keeps_registry_witness:
  "length (toolRegistry afterIncremental) = 2
   \<and> length (toolRegistry afterRefresh) = 4
   \<and> map_of (toolRegistry afterIncremental) ''office365_send_email'' \<noteq> None
   \<and> map_of (toolRegistry afterRefresh) ''office365_send_email''
       = map_of (toolRegistry afterIncremental) ''office365_send_email''"
proof -
  obtain v where v: "map_of (toolRegistry afterIncremental) ''office365_send_email'' = Some v"
    using sendEmail_afterIncremental by blast
  have run: "refresh_tools refreshEnv (Inr ''test-token'') testContext afterIncremental
               = (fst (refresh_tools refreshEnv (Inr ''test-token'') testContext afterIncremental),
                  afterRefresh)"
    unfolding afterRefresh_def by simp
  from refresh_tools_keeps_registry[THEN conjunct1, THEN mp, OF run, of "''office365_send_email''" v] v
  have "map_of (toolRegistry afterRefresh) ''office365_send_email'' = Some v" by blast
  then show ?thesis using v sendEmail_afterIncremental by simp
qed

text \<open>
  Claim C4 (amended). For two incremental registrations, one after the other, for
  connections with the same API name: when the first registered at least one tool, the
  second returns all zeros and leaves the registry as it is, without a fetch and without a
  notification; in every case at most one notification is sent across the two calls.
  Whenever a key of the registry begins with the API name and an underscore, the call
  returns all zeros without fetching or notifying; and a call sends the notification
  exactly when it registered at least one tool.
\<close>

theorem incremental_registration_idempotent:
  "extractConnectionInfo c1 = Inr conn1 \<and> extractConnectionInfo c2 = Inr conn2
   \<and> apiName conn1 = apiName conn2
   \<and> registerToolsForConnection env1 tok1 ctx c1 s0 = (t1, s1)
   \<and> registerToolsForConnection env2 tok2 ctx c2 s1 = (t2, s2)
   \<longrightarrow>
     (tallyRegistered t1 > 0 \<longrightarrow>
        t2 = zeroTally \<and> toolRegistry s2 = toolRegistry s1 \<and> armCalls s2 = armCalls s1
        \<and> notifications s2 = notifications s1)
   \<and> length (notifications s2) \<le> length (notifications s0) + 1
   \<and> (hasPrefix (apiName conn1) s0 \<longrightarrow>
        t1 = zeroTally \<and> toolRegistry s1 = toolRegistry s0 \<and> armCalls s1 = armCalls s0
        \<and> notifications s1 = notifications s0 \<and> schemaCache s1 = schemaCache s0)
   \<and> notifications s1 = notifications s0
        @ (if tallyRegistered t1 > 0 then [''notifications/tools/list_changed''] else [])
   \<and> notifications s2 = notifications s1
        @ (if tallyRegistered t2 > 0 then [''notifications/tools/list_changed''] else [])"
proof
  assume h: "extractConnectionInfo c1 = Inr conn1 \<and> extractConnectionInfo c2 = Inr conn2
   \<and> apiName conn1 = apiName conn2
   \<and> registerToolsForConnection env1 tok1 ctx c1 s0 = (t1, s1)
   \<and> registerToolsForConnection env2 tok2 ctx c2 s1 = (t2, s2)"
  then have c1: "extractConnectionInfo c1 = Inr conn1" and c2: "extractConnectionInfo c2 = Inr conn2"
    and same: "apiName conn1 = apiName conn2"
    and r1: "registerToolsForConnection env1 tok1 ctx c1 s0 = (t1, s1)"
    and r2: "registerToolsForConnection env2 tok2 ctx c2 s1 = (t2, s2)" by simp_all
  have n1: "notifications s1 = notifications s0
        @ (if tallyRegistered t1 > 0 then [''notifications/tools/list_changed''] else [])"
    using registerToolsForConnection_effect[OF r1] by blast
  have n2: "notifications s2 = notifications s1
        @ (if tallyRegistered t2 > 0 then [''notifications/tools/list_changed''] else [])"
    using registerToolsForConnection_effect[OF r2] by blast
  have second: "t2 = zeroTally \<and> toolRegistry s2 = toolRegistry s1 \<and> armCalls s2 = armCalls s1
        \<and> notifications s2 = notifications s1" if "tallyRegistered t1 > 0"
  proof -
    have "hasPrefix (apiName conn2) s1"
      using registered_gives_prefix[OF r1 c1 that] same by simp
    from registerToolsForConnection_shortcut[OF c2 this, of env2 tok2 ctx] r2
    show ?thesis by auto
  qed
  have first: "t1 = zeroTally \<and> toolRegistry s1 = toolRegistry s0 \<and> armCalls s1 = armCalls s0
        \<and> notifications s1 = notifications s0 \<and> schemaCache s1 = schemaCache s0"
    if "hasPrefix (apiName conn1) s0"
    using registerToolsForConnection_shortcut[OF c1 that, of env1 tok1 ctx] r1 by auto
  have atMostOne: "length (notifications s2) \<le> length (notifications s0) + 1"
  proof (cases "tallyRegistered t1 > 0")
    case True
    then show ?thesis using second n1 by simp
  next
    case False
    then show ?thesis using n1 n2 by simp
  qed
  show "(tallyRegistered t1 > 0 \<longrightarrow>
        t2 = zeroTally \<and> toolRegistry s2 = toolRegistry s1 \<and> armCalls s2 = armCalls s1
        \<and> notifications s2 = notifications s1)
   \<and> length (notifications s2) \<le> length (notifications s0) + 1
   \<and> (hasPrefix (apiName conn1) s0 \<longrightarrow>
        t1 = zeroTally \<and> toolRegistry s1 = toolRegistry s0 \<and> armCalls s1 = armCalls s0
        \<and> notifications s1 = notifications s0 \<and> schemaCache s1 = schemaCache s0)
   \<and> notifications s1 = notifications s0
        @ (if tallyRegistered t1 > 0 then [''notifications/tools/list_changed''] else [])
   \<and> notifications s2 = notifications s1
        @ (if tallyRegistered t2 > 0 then [''notifications/tools/list_changed''] else [])"
    using second first atMostOne n1 n2 by blast
qed

lemma incremental_runs:
  "extractConnectionInfo office365Response \<noteq> Inl TypeError
   \<and> tallyRegistered (fst (registerToolsForConnection (\<lambda>n. Inr testSwagger) (Inr ''test-token'')
         testContext office365Response initialState)) = 2
   \<and> length (toolRegistry afterIncremental) = 2
   \<and> notifications afterIncremental = [''notifications/tools/list_changed'']"
  by code_simp

theorem incremental_registration_idempotent_witness:
  "length (toolRegistry afterIncremental) = 2
   \<and> toolRegistry afterSecondIncremental = toolRegistry afterIncremental
   \<and> armCalls afterSecondIncremental = armCalls afterIncremental
   \<and> notifications afterSecondIncremental = [''notifications/tools/list_changed'']"
proof -
  let ?env = "\<lambda>n::nat. (Inr testSwagger :: arm_error + json)"
  let ?tok = "Inr ''test-token'' :: js_error + string"
  let ?r1 = "registerToolsForConnection ?env ?tok testContext office365Response initialState"
  let ?r2 = "registerToolsForConnection ?env ?tok testContext office365Response afterIncremental"
  obtain conn where conn: "extractConnectionInfo office365Response = Inr conn"
    by (cases "extractConnectionInfo office365Response")
       (simp_all add: extractConnectionInfo_def office365Response_def
          makeArmConnectionResponse_def getProp_def)
  have run1: "?r1 = (fst ?r1, afterIncremental)" unfolding afterIncremental_def by simp
  have run2: "?r2 = (fst ?r2, afterSecondIncremental)" unfolding afterSecondIncremental_def by simp
  have pos: "tallyRegistered (fst ?r1) > 0" using incremental_runs by simp
  from incremental_registration_idempotent[of office365Response conn office365Response conn
        ?env ?tok testContext initialState "fst ?r1" afterIncremental ?env ?tok "fst ?r2"
        afterSecondIncremental, THEN mp] conn run1 run2
  have "(tallyRegistered (fst ?r1) > 0 \<longrightarrow>
        fst ?r2 = zeroTally \<and> toolRegistry afterSecondIncremental = toolRegistry afterIncremental
        \<and> armCalls afterSecondIncremental = armCalls afterIncremental
        \<and> notifications afterSecondIncremental = notifications afterIncremental)"
    by blast
  then show ?thesis using pos incremental_runs by simp
qed

text \<open>
  As first stated, C4 has the second call leave the size of the registry unchanged. When
  the schema fetch of the first call fails and that of the second succeeds, the first call
  counts one error and registers nothing, and the second registers two tools.
\<close>

theorem incremental_registration_counterexample:
  "tallyErrors (fst afterFailedAttempt) = 1
   \<and> tallyRegistered (fst afterFailedAttempt) = 0
   \<and> length (toolRegistry (snd afterFailedAttempt)) = 0
   \<and> tallyRegistered (fst afterRetry) = 2
   \<and> length (toolRegistry (snd afterRetry)) = 2
   \<and> length (toolRegistry (snd afterRetry)) \<noteq> length (toolRegistry (snd afterFailedAttempt))"
  by code_simp

lemma fetchApiSchema_miss:
  assumes "map_of (schemaCache s) api = None" "env (length (armCalls s)) = Inr result"
  shows "fst (fetchApiSchema env api ctx s) = Inr result"
    and "truthy result \<Longrightarrow>
           map_of (schemaCache (snd (fetchApiSchema env api ctx s))) api = Some result"
    and "\<not> truthy result \<Longrightarrow>
           schemaCache (snd (fetchApiSchema env api ctx s)) = schemaCache s
           \<and> logs (snd (fetchApiSchema env api ctx s)) =
               logs s @ [LogDebug (''Fetching API schema: GET '' @ managedApiPath ctx api
                                    @ ''?api-version=2016-06-01&export=true''),
                         LogWarn (''No embedded swagger in response for '' @ api)]"
  using assms
  by (simp_all add: fetchApiSchema_def callArm_def logLine_def Let_def update_conv')

lemma fetchApiSchema_calls:
  assumes "map_of (schemaCache s) api = None"
  shows "length (armCalls (snd (fetchApiSchema env api ctx s))) = Suc (length (armCalls s))"
  using assms
  by (simp add: fetchApiSchema_def callArm_def logLine_def Let_def split: sum.splits)

lemma fetchApiSchema_hit:
  "map_of (schemaCache s) api = Some cached \<Longrightarrow> fetchApiSchema env api ctx s = (Inr cached, s)"
  by (simp add: fetchApiSchema_def)

lemma tryConnection_skip:
  assumes "extractConnectionInfo c = Inr conn" "map_of (schemaCache s) (apiName conn) = None"
    "env (length (armCalls s)) = Inr result" "\<not> truthy result"
  shows "fst (tryConnection env ctx c s) = Inr None
         \<and> toolRegistry (snd (tryConnection env ctx c s)) = toolRegistry s
         \<and> schemaCache (snd (tryConnection env ctx c s)) = schemaCache s
         \<and> serverTools (snd (tryConnection env ctx c s)) = serverTools s
         \<and> notifications (snd (tryConnection env ctx c s)) = notifications s"
proof -
  obtain r s1 where f: "fetchApiSchema env (apiName conn) ctx s = (r, s1)"
    by (cases "fetchApiSchema env (apiName conn) ctx s")
  have "r = Inr result"
    using fetchApiSchema_miss(1)[of s "apiName conn" env result ctx] assms(2,3) f by simp
  moreover have "schemaCache s1 = schemaCache s"
    using fetchApiSchema_miss(3)[of s "apiName conn" env result ctx] assms(2,3,4) f by simp
  moreover have "toolRegistry s1 = toolRegistry s \<and> serverTools s1 = serverTools s
      \<and> notifications s1 = notifications s" using fetchApiSchema_frame[OF f] by simp
  ultimately show ?thesis using assms(1,4) f by (simp add: tryConnection_def)
qed

lemma scanConnections_skip:
  assumes "fst (tryConnection env ctx c s) = Inr None"
  shows "scanConnections env ctx (c # cs) tally s
           = scanConnections env ctx cs tally (snd (tryConnection env ctx c s))"
  using assms by (cases "tryConnection env ctx c s") simp

lemma registerDynamicTools_single_skip:
  assumes "env (length (armCalls s)) = Inr connResult"
    "getProp connResult ''value'' = Some (JArr [c])"
    "extractConnectionInfo c = Inr conn" "map_of (schemaCache s) (apiName conn) = None"
    "env (Suc (length (armCalls s))) = Inr result" "\<not> truthy result"
  shows "fst (registerDynamicTools env (Inr token) ctx s)
           = Inr \<lparr>tallyRegistered = 0, tallySkipped = 0, tallyErrors = 0\<rparr>
         \<and> toolRegistry (snd (registerDynamicTools env (Inr token) ctx s)) = toolRegistry s
         \<and> schemaCache (snd (registerDynamicTools env (Inr token) ctx s)) = schemaCache s
         \<and> serverTools (snd (registerDynamicTools env (Inr token) ctx s)) = serverTools s"
proof -
  let ?call = "\<lparr>callMethod = ''GET'', callPath = connectionsPath ctx,
                 callQuery = [], callBody = None\<rparr>"
  let ?s1 = "s\<lparr>armCalls := armCalls s @ [?call]\<rparr>"
  let ?zero = "\<lparr>tallyRegistered = 0, tallySkipped = 0, tallyErrors = 0\<rparr>"
  have nn: "connResult \<noteq> JNull" using assms(2) by (auto simp: getProp_def)
  have c1: "callArm env ?call s = (Inr connResult, ?s1)"
    using assms(1) by (simp add: callArm_def)
  have m: "map_of (schemaCache ?s1) (apiName conn) = None" using assms(4) by simp
  have e: "env (length (armCalls ?s1)) = Inr result" using assms(5) by simp
  note sk = tryConnection_skip[of c conn ?s1 env result ctx, OF assms(3) m e assms(6)]
  let ?s2 = "snd (tryConnection env ctx c ?s1)"
  have sc: "scanConnections env ctx [c] ?zero ?s1 = (Inr ?zero, ?s2)"
    using scanConnections_skip[of env ctx c ?s1 "[]" ?zero] sk by simp
  have "registerDynamicTools env (Inr token) ctx s
          = (Inr ?zero,
             logLine (LogInfo (''Dynamic tools: '' @ showNat 0 @ '' registered, ''
                                @ showNat 0 @ '' skipped, '' @ showNat 0 @ '' errors'')) ?s2)"
    unfolding registerDynamicTools_def using c1 nn assms(2) sc by (simp add: Let_def)
  then show ?thesis using sk by simp
qed

text \<open>
  Claim C1 (amended). When no schema is cached for \<open>apiName\<close> and the managed-API fetch
  succeeds, \<open>fetchApiSchema\<close> returns the decoded ARM response itself, whole; it caches
  that response under \<open>apiName\<close> when it is truthy; when the response is \<open>null\<close> (or another
  falsy value) it returns it, logs the warning, and caches nothing. The startup scan then
  skips that connection: it goes on to the remaining connections with its tally as it
  was, with no tool registered and nothing cached, so that a scan of that one connection
  ends with the tally of zero registered, zero skipped and zero errors. A cached schema is
  returned without a fetch.
\<close>

theorem fetchApiSchema_returns_response:
  "(map_of (schemaCache s) api = None \<and> env (length (armCalls s)) = Inr result \<longrightarrow>
      fst (fetchApiSchema env api ctx s) = Inr result
      \<and> (truthy result \<longrightarrow>
            map_of (schemaCache (snd (fetchApiSchema env api ctx s))) api = Some result)
      \<and> (\<not> truthy result \<longrightarrow>
            schemaCache (snd (fetchApiSchema env api ctx s)) = schemaCache s
            \<and> logs (snd (fetchApiSchema env api ctx s)) =
                logs s @ [LogDebug (''Fetching API schema: GET '' @ managedApiPath ctx api
                                     @ ''?api-version=2016-06-01&export=true''),
                          LogWarn (''No embedded swagger in response for '' @ api)]))
   \<and> (extractConnectionInfo c = Inr conn \<and> map_of (schemaCache s) (apiName conn) = None
        \<and> env (length (armCalls s)) = Inr result \<and> \<not> truthy result \<longrightarrow>
      fst (tryConnection env ctx c s) = Inr None
      \<and> toolRegistry (snd (tryConnection env ctx c s)) = toolRegistry s
      \<and> schemaCache (snd (tryConnection env ctx c s)) = schemaCache s
      \<and> serverTools (snd (tryConnection env ctx c s)) = serverTools s
      \<and> scanConnections env ctx (c # cs) tally s
          = scanConnections env ctx cs tally (snd (tryConnection env ctx c s)))
   \<and> (env (length (armCalls s)) = Inr connResult
        \<and> getProp connResult ''value'' = Some (JArr [c])
        \<and> extractConnectionInfo c = Inr conn \<and> map_of (schemaCache s) (apiName conn) = None
        \<and> env (Suc (length (armCalls s))) = Inr result \<and> \<not> truthy result \<longrightarrow>
      fst (registerDynamicTools env (Inr token) ctx s)
        = Inr \<lparr>tallyRegistered = 0, tallySkipped = 0, tallyErrors = 0\<rparr>
      \<and> toolRegistry (snd (registerDynamicTools env (Inr token) ctx s)) = toolRegistry s
      \<and> schemaCache (snd (registerDynamicTools env (Inr token) ctx s)) = schemaCache s
      \<and> serverTools (snd (registerDynamicTools env (Inr token) ctx s)) = serverTools s)
   \<and> (map_of (schemaCache s) api = Some cached \<longrightarrow>
        fetchApiSchema env api ctx s = (Inr cached, s))"
proof (intro conjI impI)
  assume a: "map_of (schemaCache s) api = None \<and> env (length (armCalls s)) = Inr result"
  then show "fst (fetchApiSchema env api ctx s) = Inr result"
    using fetchApiSchema_miss(1)[of s api env result ctx] by simp
  {
    assume "truthy result"
    then show "map_of (schemaCache (snd (fetchApiSchema env api ctx s))) api = Some result"
      using a fetchApiSchema_miss(2)[of s api env result ctx] by simp
  }
  {
    assume t: "\<not> truthy result"
    from a t fetchApiSchema_miss(3)[of s api env result ctx]
    show "schemaCache (snd (fetchApiSchema env api ctx s)) = schemaCache s"
      and "logs (snd (fetchApiSchema env api ctx s)) =
                logs s @ [LogDebug (''Fetching API schema: GET '' @ managedApiPath ctx api
                                     @ ''?api-version=2016-06-01&export=true''),
                          LogWarn (''No embedded swagger in response for '' @ api)]"
      by simp_all
  }
next
  assume b: "extractConnectionInfo c = Inr conn \<and> map_of (schemaCache s) (apiName conn) = None
        \<and> env (length (armCalls s)) = Inr result \<and> \<not> truthy result"
  then have sk: "fst (tryConnection env ctx c s) = Inr None
         \<and> toolRegistry (snd (tryConnection env ctx c s)) = toolRegistry s
         \<and> schemaCache (snd (tryConnection env ctx c s)) = schemaCache s
         \<and> serverTools (snd (tryConnection env ctx c s)) = serverTools s
         \<and> notifications (snd (tryConnection env ctx c s)) = notifications s"
    using tryConnection_skip[of c conn s env result ctx] by simp
  from sk show "fst (tryConnection env ctx c s) = Inr None"
    and "toolRegistry (snd (tryConnection env ctx c s)) = toolRegistry s"
    and "schemaCache (snd (tryConnection env ctx c s)) = schemaCache s"
    and "serverTools (snd (tryConnection env ctx c s)) = serverTools s"
    by simp_all
  from sk show "scanConnections env ctx (c # cs) tally s
          = scanConnections env ctx cs tally (snd (tryConnection env ctx c s))"
    using scanConnections_skip[of env ctx c s cs tally] by simp
next
  assume d: "env (length (armCalls s)) = Inr connResult
        \<and> getProp connResult ''value'' = Some (JArr [c])
        \<and> extractConnectionInfo c = Inr conn \<and> map_of (schemaCache s) (apiName conn) = None
        \<and> env (Suc (length (armCalls s))) = Inr result \<and> \<not> truthy result"
  then have r: "fst (registerDynamicTools env (Inr token) ctx s)
           = Inr \<lparr>tallyRegistered = 0, tallySkipped = 0, tallyErrors = 0\<rparr>
         \<and> toolRegistry (snd (registerDynamicTools env (Inr token) ctx s)) = toolRegistry s
         \<and> schemaCache (snd (registerDynamicTools env (Inr token) ctx s)) = schemaCache s
         \<and> serverTools (snd (registerDynamicTools env (Inr token) ctx s)) = serverTools s"
    using registerDynamicTools_single_skip[of env s connResult c conn result token ctx] by simp
  from r show "fst (registerDynamicTools env (Inr token) ctx s)
        = Inr \<lparr>tallyRegistered = 0, tallySkipped = 0, tallyErrors = 0\<rparr>"
    and "toolRegistry (snd (registerDynamicTools env (Inr token) ctx s)) = toolRegistry s"
    and "schemaCache (snd (registerDynamicTools env (Inr token) ctx s)) = schemaCache s"
    and "serverTools (snd (registerDynamicTools env (Inr token) ctx s)) = serverTools s"
    by simp_all
next
  assume "map_of (schemaCache s) api = Some cached"
  then show "fetchApiSchema env api ctx s = (Inr cached, s)" by (rule fetchApiSchema_hit)
qed

theorem fetchApiSchema_returns_response_witness:
  "fst (fetchApiSchema (\<lambda>n. Inr testSwagger) ''office365'' testContext initialState) = Inr testSwagger
   \<and> map_of (schemaCache (snd (fetchApiSchema (\<lambda>n. Inr testSwagger) ''office365'' testContext
                                  initialState))) ''office365'' = Some testSwagger
   \<and> fst (fetchApiSchema (\<lambda>n. Inr JNull) ''noschema'' testContext initialState) = Inr JNull
   \<and> schemaCache (snd (fetchApiSchema (\<lambda>n. Inr JNull) ''noschema'' testContext initialState)) = []
   \<and> fst (registerDynamicTools nullSchemaEnv (Inr ''test-token'') testContext initialState)
       = Inr \<lparr>tallyRegistered = 0, tallySkipped = 0, tallyErrors = 0\<rparr>
   \<and> toolRegistry (snd (registerDynamicTools nullSchemaEnv (Inr ''test-token'') testContext
                           initialState)) = []"
proof -
  have m: "map_of (schemaCache initialState) ''office365'' = None"
    "map_of (schemaCache initialState) ''noschema'' = None" "schemaCache initialState = []"
    "toolRegistry initialState = []" "armCalls initialState = []"
    by (simp_all add: initialState_def)
  have t: "truthy testSwagger" by (simp add: testSwagger_def)
  have a: "map_of (schemaCache initialState) ''office365'' = None
       \<and> (\<lambda>n::nat. (Inr testSwagger :: arm_error + json)) (length (armCalls initialState)) = Inr testSwagger"
    using m by simp
  have b: "map_of (schemaCache initialState) ''noschema'' = None
       \<and> (\<lambda>n::nat. (Inr JNull :: arm_error + json)) (length (armCalls initialState)) = Inr JNull"
    using m by simp
  from fetchApiSchema_returns_response[of initialState "''office365''" "\<lambda>n. Inr testSwagger"
         testSwagger testContext, THEN conjunct1, THEN mp, OF a] t
  have 1: "fst (fetchApiSchema (\<lambda>n. Inr testSwagger) ''office365'' testContext initialState) = Inr testSwagger
   \<and> map_of (schemaCache (snd (fetchApiSchema (\<lambda>n. Inr testSwagger) ''office365'' testContext
                                  initialState))) ''office365'' = Some testSwagger"
    by blast
  from fetchApiSchema_returns_response[of initialState "''noschema''" "\<lambda>n. Inr JNull"
         JNull testContext, THEN conjunct1, THEN mp, OF b]
  have 2: "fst (fetchApiSchema (\<lambda>n. Inr JNull) ''noschema'' testContext initialState) = Inr JNull
   \<and> schemaCache (snd (fetchApiSchema (\<lambda>n. Inr JNull) ''noschema'' testContext initialState)) = []"
    using m(3) by simp
  obtain conn where conn: "extractConnectionInfo office365Response = Inr conn"
      "apiName conn = ''office365''"
    by (simp add: extractConnectionInfo_def office365Response_def makeArmConnectionResponse_def
          getProp_def asString_def)
  let ?list = "JObj [(''value'', JArr [office365Response])]"
  have d: "nullSchemaEnv (length (armCalls initialState)) = Inr ?list
        \<and> getProp ?list ''value'' = Some (JArr [office365Response])
        \<and> extractConnectionInfo office365Response = Inr conn
        \<and> map_of (schemaCache initialState) (apiName conn) = None
        \<and> nullSchemaEnv (Suc (length (armCalls initialState))) = Inr JNull \<and> \<not> truthy JNull"
    using conn m by (simp add: nullSchemaEnv_def office365Response_def getProp_def)
  from fetchApiSchema_returns_response[of initialState _ nullSchemaEnv JNull testContext
         office365Response conn _ _ ?list "''test-token''",
         THEN conjunct2, THEN conjunct2, THEN conjunct1, THEN mp, OF d]
  have 3: "fst (registerDynamicTools nullSchemaEnv (Inr ''test-token'') testContext initialState)
       = Inr \<lparr>tallyRegistered = 0, tallySkipped = 0, tallyErrors = 0\<rparr>
   \<and> toolRegistry (snd (registerDynamicTools nullSchemaEnv (Inr ''test-token'') testContext
                           initialState)) = []"
    using m(4) by simp
  from 1 2 3 show ?thesis by blast
qed

text \<open>
  As first stated, C1 has \<open>fetchApiSchema\<close> return the Swagger document embedded in the
  response and \<open>null\<close> when there is none. For a response that embeds a document under
  \<open>properties.swagger\<close> the function returns and caches the enclosing resource, and so it
  does for a resource without an embedded document.
\<close>

theorem fetchApiSchema_envelope_counterexample:
  "embeddedSwagger envelopeResponse = Some testSwagger
   \<and> fst (fetchApiSchema (\<lambda>n. Inr envelopeResponse) ''office365'' testContext initialState)
       = Inr envelopeResponse
   \<and> envelopeResponse \<noteq> testSwagger
   \<and> map_of (schemaCache (snd (fetchApiSchema (\<lambda>n. Inr envelopeResponse) ''office365''
                                  testContext initialState))) ''office365'' = Some envelopeResponse
   \<and> embeddedSwagger bareEnvelope = None
   \<and> fst (fetchApiSchema (\<lambda>n. Inr bareEnvelope) ''office365'' testContext initialState)
       = Inr bareEnvelope
   \<and> bareEnvelope \<noteq> JNull
   \<and> map_of (schemaCache (snd (fetchApiSchema (\<lambda>n. Inr bareEnvelope) ''office365''
                                  testContext initialState))) ''office365'' = Some bareEnvelope"
  by code_simp

lemma startup_scan_of_the_tests:
  "fst (registerDynamicTools twoConnectionsEnv (Inr ''test-token'') testContext initialState)
     = Inr \<lparr>tallyRegistered = 4, tallySkipped = 0, tallyErrors = 0\<rparr>
   \<and> map fst (toolRegistry (snd (registerDynamicTools twoConnectionsEnv (Inr ''test-token'')
                                      testContext initialState)))
       = [''office365_send_email'', ''office365_get_message'', ''teams_send_email'',
          ''teams_get_message'']"
  by code_simp

section \<open>Properties of the invocation translator\<close>

lemma invoke_test_envelopes:
  "dynamicInvokeRequest (\<lambda>s. None) getMessageOp [(''messageId'', JStr ''msg-1'')]
     = \<lparr>reqMethod = ''GET'', reqPath = ''/v2/Mail/msg-1'', reqHeaders = None, reqBody = None,
        reqQueries = None\<rparr>"
  "dynamicInvokeRequest (\<lambda>s. None) searchMailOp
       [(''_filter'', JStr ''isRead eq false''), (''_top'', JStr ''10'')]
     = \<lparr>reqMethod = ''GET'', reqPath = ''/v2/Mail'', reqHeaders = None, reqBody = None,
        reqQueries = Some [(''$filter'', ''isRead eq false''), (''$top'', ''10'')]\<rparr>"
  "requestJson (dynamicInvokeRequest (\<lambda>s. None) sendEmailOp
       [(''Subject'', JStr ''Hello''), (''Body'', JStr ''World'')])
     = JObj [(''method'', JStr ''POST''), (''path'', JStr ''/v2/Mail''),
             (''headers'', JObj [(''Content-Type'', JStr ''application/json'')]),
             (''body'', JObj [(''Subject'', JStr ''Hello''), (''Body'', JStr ''World'')])]"
  by code_simp+

lemma invoke_method_uppercased:
  "reqMethod (dynamicInvokeRequest jsonParse op params) = toUpperCase (httpMethod op)"
  by (simp add: dynamicInvokeRequest_def Let_def split: prod.splits)

lemma invoke_body_iff:
  "reqBody (dynamicInvokeRequest jsonParse op params) \<noteq> None \<longleftrightarrow>
     (\<exists>b. requestBody op = Some b \<and> collectBody jsonParse (properties b) params [] \<noteq> [])"
  "(reqHeaders (dynamicInvokeRequest jsonParse op params) = Some [(''Content-Type'', ''application/json'')])
     \<longleftrightarrow> reqBody (dynamicInvokeRequest jsonParse op params) \<noteq> None"
  by (auto simp: dynamicInvokeRequest_def Let_def split: prod.splits option.splits)

lemma collectParams_query_keys:
  "collectParams ps params p qs = (p', qs') \<Longrightarrow>
   set (map fst qs') =
     set (map fst qs) \<union>
     {paramName x | x. x \<in> set ps \<and> paramName x \<noteq> ''connectionId'' \<and> paramIn x = ''query''
                       \<and> map_of params (sanitizeKey (paramName x)) \<noteq> None}"
proof (induction ps arbitrary: p qs)
  case Nil
  then show ?case by simp
next
  case (Cons a ps)
  show ?case
  proof (cases "paramName a = ''connectionId''")
    case True
    then have "collectParams ps params p qs = (p', qs')" using Cons.prems by simp
    from Cons.IH[OF this] show ?thesis using True by auto
  next
    case notConn: False
    show ?thesis
    proof (cases "map_of params (sanitizeKey (paramName a))")
      case None
      then have "collectParams ps params p qs = (p', qs')" using Cons.prems notConn by simp
      from Cons.IH[OF this] show ?thesis using None by auto
    next
      case (Some val)
      show ?thesis
      proof (cases "paramIn a = ''path''")
        case True
        then have "collectParams ps params
                     (replaceJS p (''{'' @ paramName a @ ''}'') (toStringJS val)) qs = (p', qs')"
          using Cons.prems notConn Some by simp
        from Cons.IH[OF this] show ?thesis using True by auto
      next
        case notPath: False
        show ?thesis
        proof (cases "paramIn a = ''query''")
          case True
          then have "collectParams ps params p
                       (AList.update (paramName a) (toStringJS val) qs) = (p', qs')"
            using Cons.prems notConn Some notPath by simp
          from Cons.IH[OF this]
          show ?thesis using True notConn Some by (auto simp: dom_update)
        next
          case False
          then have "collectParams ps params p qs = (p', qs')"
            using Cons.prems notConn Some notPath by simp
          from Cons.IH[OF this] show ?thesis using False by auto
        qed
      qed
    qed
  qed
qed

text \<open>
  Claim C3. The claim has every supplied path parameter's placeholder replaced by the
  string form of its value. For the operation \<open>GetMessage\<close> of the tests and the validated
  input \<open>{messageId: "cost$$report"}\<close> the path of the specification is
  \<open>/v2/Mail/cost$$report\<close>, and \<open>invokeDynamicTool\<close> sends \<open>/v2/Mail/cost$report\<close>; for
  \<open>{messageId: "$&"}\<close> it sends the placeholder back, \<open>/v2/Mail/{messageId}\<close>. The value
  passes through the replacement template of \<open>String.prototype.replace\<close>.
\<close>

theorem invoke_path_dollar_pattern:
  "validatedParams (generateZodSchema getMessageOp) [(''messageId'', JStr ''cost$$report'')]
   \<and> reqPath (dynamicInvokeRequest (\<lambda>s. None) getMessageOp [(''messageId'', JStr ''cost$$report'')])
       = ''/v2/Mail/cost$report''
   \<and> specInvocationPath getMessageOp [(''messageId'', JStr ''cost$$report'')]
       = ''/v2/Mail/cost$$report''
   \<and> validatedParams (generateZodSchema getMessageOp) [(''messageId'', JStr ''$&'')]
   \<and> reqPath (dynamicInvokeRequest (\<lambda>s. None) getMessageOp [(''messageId'', JStr ''$&'')])
       = ''/v2/Mail/{messageId}''
   \<and> specInvocationPath getMessageOp [(''messageId'', JStr ''$&'')] = ''/v2/Mail/$&''
   \<and> map callBody (armCalls (snd (invokeWith [(''messageId'', JStr ''cost$$report'')])))
       = [Some (JObj [(''request'', JObj [(''method'', JStr ''GET''),
                                          (''path'', JStr ''/v2/Mail/cost$report'')])])]
   \<and> map callPath (armCalls (snd (invokeWith [(''messageId'', JStr ''cost$$report'')])))
       = [''/subscriptions/sub-123/resourceGroups/rg-test/providers/Microsoft.Web/connections/office365/dynamicInvoke'']"
  by code_simp

end
